theory Spec2Isabelle
  imports Complex_Main "HOL-Library.Sublist"
begin

section \<open>Exceptions and effects\<close>

text \<open>
  The Python exceptions the driver raises or lets through.  A routine that talks to the
  instrument is modelled by what it did: the exception it ended with, if any, and the
  property writes it issued up to that point, in order.
\<close>

datatype exn =
    AttributeError | ValueError | KeyError | IndexError | TimeoutError | ZeroDivisionError

datatype command =
    SetSweepStatus int | SetXPointer int | SetYPointer int | SetSweepTable real

type_synonym run = "exn option \<times> command list"

definition then_run :: "run \<Rightarrow> run \<Rightarrow> run" where
  \<comment> \<open>statement sequencing: what follows a raising statement is not executed\<close>
  "then_run a b = (case fst a of Some e \<Rightarrow> a | None \<Rightarrow> (fst b, snd a @ snd b))"

section \<open>Property accessors of the ITC503\<close>

definition strict_range :: "int \<Rightarrow> int \<times> int \<Rightarrow> exn + int" where
  \<comment> \<open>Modelled from the spec: the validator \<open>strict_range\<close> of
      \<open>pymeasure.instruments.validators\<close>, which is not among the source files; a value
      outside the closed range is rejected with ValueError (spec, section 3: pointers are
      integers in [0,128]).\<close>
  "strict_range v r = (if fst r \<le> v \<and> v \<le> snd r then Inr v else Inl ValueError)"

definition setting :: "(int \<Rightarrow> command) \<Rightarrow> int \<times> int \<Rightarrow> int \<Rightarrow> run" where
  \<comment> \<open>Modelled from the spec: the setter built by \<open>Instrument.setting\<close> and
      \<open>Instrument.control\<close> (class \<open>Instrument\<close> is not among the source files): validate,
      then send one write.\<close>
  "setting cmd r v =
     (case strict_range v r of Inl e \<Rightarrow> (Some e, []) | Inr v' \<Rightarrow> (None, [cmd v']))"

definition sweep_status_set :: "int \<Rightarrow> run" where
  "sweep_status_set = setting SetSweepStatus (0, 32)"

definition x_pointer_set :: "int \<Rightarrow> run" where
  "x_pointer_set = setting SetXPointer (0, 128)"

definition y_pointer_set :: "int \<Rightarrow> run" where
  "y_pointer_set = setting SetYPointer (0, 128)"

definition sweep_table_set :: "real \<Rightarrow> run" where
  \<comment> \<open>\<open>sweep_table\<close> declares no validator: every value is written\<close>
  "sweep_table_set v = (None, [SetSweepTable v])"

definition is_digit :: "char \<Rightarrow> bool" where
  "is_digit c = (48 \<le> (of_char c :: nat) \<and> (of_char c :: nat) \<le> 57)"

definition digit_value :: "char \<Rightarrow> nat" where
  "digit_value c = of_char c - 48"

definition int_of_slice :: "string \<Rightarrow> exn + int" where
  \<comment> \<open>Python's \<open>int(s)\<close> on a slice \<open>v[i:i+1]\<close>, which holds at most one character\<close>
  "int_of_slice s =
     (case s of
        [c] \<Rightarrow> if is_digit c then Inr (int (digit_value c)) else Inl ValueError
      | _ \<Rightarrow> Inl ValueError)"

definition control_mode_values :: "(string \<times> int) list" where
  "control_mode_values = [(''LL'', 0), (''RL'', 1), (''LU'', 2), (''RU'', 3)]"

fun mapped_name :: "(string \<times> int) list \<Rightarrow> int \<Rightarrow> exn + string" where
  \<comment> \<open>Modelled from the spec: the reverse lookup that \<open>Instrument.control\<close> does on reading a
      property declared with \<open>map_values=True\<close> (spec, section 6: a mode code is extracted
      from the status string); a code that names no mode is a KeyError.\<close>
  "mapped_name [] c = Inl KeyError"
| "mapped_name ((k, v) # kvs) c = (if v = c then Inr k else mapped_name kvs c)"

definition control_mode :: "string \<Rightarrow> exn + string" where
  \<comment> \<open>the getter of \<open>control_mode\<close> applied to the reply \<open>v\<close> to the query \<open>X\<close>:
      \<open>get_process = lambda v: int(v[5:6])\<close>, then the mapped name\<close>
  "control_mode v =
     (case int_of_slice (take 1 (drop 5 v)) of
        Inl e \<Rightarrow> Inl e
      | Inr c \<Rightarrow> mapped_name control_mode_values c)"

section \<open>The numpy routines used by the sweep programmer\<close>

text \<open>
  Floating-point numbers are modelled by real numbers.  The numpy routines are library
  code; they are modelled after the library's documented behaviour.
\<close>

definition linspace :: "real \<Rightarrow> real \<Rightarrow> int \<Rightarrow> exn + real list" where
  \<comment> \<open>\<open>numpy.linspace(start, stop, num)\<close>: \<open>num\<close> evenly spaced samples, both ends included\<close>
  "linspace start stop num =
     (if num < 0 then Inl ValueError
      else if num = 1 then Inr [start]
      else Inr (map (\<lambda>i. start + real i * ((stop - start) / real_of_int (num - 1)))
                 [0..<nat num]))"

definition round_half_even :: "real \<Rightarrow> int" where
  \<comment> \<open>rounding to the nearest integer, a half going to the even neighbour: Python's
      \<open>round(x)\<close> and the integer that \<open>numpy.round(x)\<close> returns as a float\<close>
  "round_half_even x =
     (let f = \<lfloor>x\<rfloor>; d = x - of_int f
      in if d < 1 / 2 then f else if 1 / 2 < d then f + 1
         else if even f then f else f + 1)"

definition rint :: "real \<Rightarrow> real" where
  \<comment> \<open>\<open>numpy.round\<close>\<close>
  "rint x = of_int (round_half_even x)"

fun interp_at :: "real \<Rightarrow> (real \<times> real) list \<Rightarrow> real" where
  \<comment> \<open>the piecewise linear interpolant through the sample points \<open>(xp, fp)\<close>, \<open>xp\<close>
      non-decreasing, evaluated at \<open>x\<close>: with \<open>j\<close> the last index such that
      \<open>xp[j] \<le> x\<close>, the value on the segment from \<open>j\<close> to \<open>j + 1\<close>; left of the first
      point it is \<open>fp[0]\<close>, from the last point on \<open>fp[-1]\<close>.  The first equation is not
      reached: \<open>interp\<close> rejects an empty \<open>xp\<close>.\<close>
  "interp_at x [] = 0"
| "interp_at x [(x0, y0)] = y0"
| "interp_at x ((x0, y0) # (x1, y1) # pts) =
     (if x < x1 then (if x \<le> x0 then y0 else y0 + (y1 - y0) / (x1 - x0) * (x - x0))
      else interp_at x ((x1, y1) # pts))"

definition interp :: "real list \<Rightarrow> real list \<Rightarrow> real list \<Rightarrow> exn + real list" where
  \<comment> \<open>\<open>numpy.interp(x, xp, fp)\<close>\<close>
  "interp x xp fp =
     (if xp = [] then Inl ValueError
      else if length fp \<noteq> length xp then Inl ValueError
      else Inr (map (\<lambda>v. interp_at v (zip xp fp)) x))"

definition pad :: "real list \<Rightarrow> int \<Rightarrow> real \<Rightarrow> exn + real list" where
  \<comment> \<open>\<open>numpy.pad(a, (0, n), 'constant', constant_values=c)\<close>; a negative width is
      rejected\<close>
  "pad a n c = (if n < 0 then Inl ValueError else Inr (a @ replicate (nat n) c))"

section \<open>The sweep table programmer\<close>

definition resample :: "real list \<Rightarrow> real list \<Rightarrow> exn + real list" where
  \<comment> \<open>\<open>interpolator = numpy.round(numpy.linspace(1, steps.size, a.size))\<close>, then
      \<open>numpy.interp(steps, interpolator, a)\<close>\<close>
  "resample steps a =
     (case linspace 1 (real (length steps)) (int (length a)) of
        Inl e \<Rightarrow> Inl e
      | Inr l \<Rightarrow> interp steps (map rint l) a)"

definition interpolate_arrays ::
  "real list \<Rightarrow> real list \<Rightarrow> real list \<Rightarrow> int option
     \<Rightarrow> exn + (real list \<times> real list \<times> real list)" where
  \<comment> \<open>the three columns resampled onto the step grid.  A scalar argument is the
      one-element array that \<open>numpy.array(_, ndmin=1)\<close> makes of it.\<close>
  "interpolate_arrays temperatures sweep_time hold_time steps =
     (let n = (case steps of None \<Rightarrow> int (length temperatures) | Some k \<Rightarrow> k)
      in case linspace 1 (real_of_int n) n of
           Inl e \<Rightarrow> Inl e
         | Inr steps' \<Rightarrow>
        (case resample steps' temperatures of
           Inl e \<Rightarrow> Inl e
         | Inr temperatures' \<Rightarrow>
        (case resample steps' sweep_time of
           Inl e \<Rightarrow> Inl e
         | Inr sweep_time' \<Rightarrow>
        (case resample steps' hold_time of
           Inl e \<Rightarrow> Inl e
         | Inr hold_time' \<Rightarrow> Inr (temperatures', sweep_time', hold_time')))))"

definition pad_arrays ::
  "real list \<times> real list \<times> real list \<Rightarrow> exn + (real list \<times> real list \<times> real list)" where
  \<comment> \<open>padding to 16 slots; \<open>temperatures[-1]\<close> is evaluated before \<open>numpy.pad\<close> is
      called and raises IndexError on an empty array\<close>
  "pad_arrays a =
     (case a of (temperatures, sweep_time, hold_time) \<Rightarrow>
        (let padding = 16 - int (length temperatures)
         in if temperatures = [] then Inl IndexError
            else case pad temperatures padding (last temperatures) of
                   Inl e \<Rightarrow> Inl e
                 | Inr t \<Rightarrow>
                (case pad sweep_time padding 0 of
                   Inl e \<Rightarrow> Inl e
                 | Inr s \<Rightarrow>
                (case pad hold_time padding 0 of
                   Inl e \<Rightarrow> Inl e
                 | Inr h \<Rightarrow> Inr (t, s, h)))))"

definition sweep_arrays ::
  "real list \<Rightarrow> real list \<Rightarrow> real list \<Rightarrow> int option
     \<Rightarrow> exn + (real list \<times> real list \<times> real list)" where
  \<comment> \<open>the three padded columns of the table\<close>
  "sweep_arrays temperatures sweep_time hold_time steps =
     (case interpolate_arrays temperatures sweep_time hold_time steps of
        Inl e \<Rightarrow> Inl e
      | Inr a \<Rightarrow> pad_arrays a)"

definition slot_writes :: "int \<Rightarrow> real \<times> real \<times> real \<Rightarrow> run \<Rightarrow> run" where
  \<comment> \<open>the body of the loop over the table, followed by the rest of the loop\<close>
  "slot_writes line row rest =
     (case row of (setpoint, sweep, hold) \<Rightarrow>
        then_run (x_pointer_set line)
       (then_run (y_pointer_set 1)
       (then_run (sweep_table_set setpoint)
       (then_run (y_pointer_set 2)
       (then_run (sweep_table_set sweep)
       (then_run (y_pointer_set 3)
       (then_run (sweep_table_set hold) rest)))))))"

fun write_table :: "int \<Rightarrow> (real \<times> real \<times> real) list \<Rightarrow> run" where
  \<comment> \<open>\<open>for line, (setpoint, sweep, hold) in enumerate(zip(...), 1)\<close>\<close>
  "write_table line [] = (None, [])"
| "write_table line (row # rows) = slot_writes line row (write_table (line + 1) rows)"

definition program_sweep ::
  "string \<Rightarrow> real list \<Rightarrow> real list \<Rightarrow> real list \<Rightarrow> int option \<Rightarrow> run" where
  \<comment> \<open>\<open>status\<close> is the instrument's reply to the status query behind \<open>control_mode\<close>\<close>
  "program_sweep status temperatures sweep_time hold_time steps =
     (case control_mode status of
        Inl e \<Rightarrow> (Some e, [])
      | Inr mode \<Rightarrow>
          if \<not> prefix ''R'' mode then (Some AttributeError, [])
          else then_run (sweep_status_set 0)
                 (case sweep_arrays temperatures sweep_time hold_time steps of
                    Inl e \<Rightarrow> (Some e, [])
                  | Inr (t, s, h) \<Rightarrow> write_table 1 (zip t (zip s h))))"

section \<open>The stability monitor\<close>

text \<open>
  \<open>wait_for_temperature\<close> talks to three things outside the driver: the instrument (one
  read of \<open>temperature_error\<close> per round), the wall clock (\<open>time()\<close>) and the caller's
  \<open>should_stop\<close>.  What they answer is the input of the model: the loop consumes one
  \<open>poll\<close> per round of the polling loop and one \<open>tick\<close> per test of the thermalization
  loop.  A script that ends before the call does leaves the call \<open>Waiting\<close>.
\<close>

record config =
  error :: real
  timeout :: real
  check_interval :: real
  stability_interval :: real
  thermalize_interval :: real
  max_comm_errors :: "int option"

datatype reading =
    ReadError  \<comment> \<open>the read raised ValueError\<close>
  | Reading real

record poll =
  reading :: reading  \<comment> \<open>\<open>self.temperature_error\<close>\<close>
  clock :: real  \<comment> \<open>\<open>time()\<close> in the timeout test\<close>
  stop :: bool  \<comment> \<open>\<open>should_stop()\<close>\<close>

record tick =
  tclock :: real  \<comment> \<open>\<open>time()\<close> in \<open>while time() < t1\<close>\<close>
  tstop :: bool  \<comment> \<open>\<open>should_stop()\<close> after the sleep\<close>

record world =
  t0 :: real  \<comment> \<open>\<open>time()\<close> before the polling loop\<close>
  polls :: "poll list"
  t_stable :: real  \<comment> \<open>\<open>time()\<close> after the polling loop\<close>
  ticks :: "tick list"

record counters =
  stable_intervals :: int
  attempt :: int
  comm_errors :: int

datatype event =
    GetTemperatureError reading | LogError int | ShouldStop bool | Sleep real

datatype ending = Returned | Raised exn | Waiting

datatype status = Continue counters | Break counters | Exit ending

definition int_of_float :: "real \<Rightarrow> int" where
  \<comment> \<open>Python's \<open>int(x)\<close> on a float: truncation towards zero\<close>
  "int_of_float x = (if 0 \<le> x then \<lfloor>x\<rfloor> else \<lceil>x\<rceil>)"

definition take_reading :: "config \<Rightarrow> counters \<Rightarrow> reading \<Rightarrow> counters \<times> event list" where
  \<comment> \<open>the \<open>try ... except ValueError ... else\<close> statement\<close>
  "take_reading cfg c r =
     (case r of
        ReadError \<Rightarrow>
          (c\<lparr>comm_errors := comm_errors c + 1\<rparr>,
           [GetTemperatureError r, LogError (comm_errors c + 1)])
      | Reading temp_error \<Rightarrow>
          (if \<bar>temp_error\<bar> < error cfg
           then c\<lparr>stable_intervals := stable_intervals c + 1\<rparr>
           else c\<lparr>stable_intervals := 0, attempt := attempt c + 1\<rparr>,
           [GetTemperatureError r]))"

definition sleep :: "real \<Rightarrow> exn option" where
  \<comment> \<open>\<open>time.sleep\<close> refuses a negative length\<close>
  "sleep d = (if d < 0 then Some ValueError else None)"

definition poll_body :: "config \<Rightarrow> real \<Rightarrow> int \<Rightarrow> counters \<Rightarrow> poll \<Rightarrow> status \<times> event list" where
  \<comment> \<open>one round of \<open>while True\<close>\<close>
  "poll_body cfg start number_of_intervals c p =
     (case take_reading cfg c (reading p) of (c', evs) \<Rightarrow>
        if stable_intervals c' \<ge> number_of_intervals then (Break c', evs)
        else if timeout cfg > 0 \<and> clock p - start > timeout cfg
          then (Exit (Raised TimeoutError), evs)
        else if (case max_comm_errors cfg of None \<Rightarrow> False | Some m \<Rightarrow> comm_errors c' > m)
          then (Exit (Raised ValueError), evs)
        else if stop p then (Exit Returned, evs @ [ShouldStop True])
        else (case sleep (check_interval cfg) of
                Some e \<Rightarrow> (Exit (Raised e), evs @ [ShouldStop False])
              | None \<Rightarrow> (Continue c', evs @ [ShouldStop False, Sleep (check_interval cfg)])))"

fun polling :: "config \<Rightarrow> real \<Rightarrow> int \<Rightarrow> counters \<Rightarrow> poll list \<Rightarrow> status \<times> event list" where
  "polling cfg start n c [] = (Continue c, [])"
| "polling cfg start n c (p # ps) =
     (case poll_body cfg start n c p of
        (Continue c', evs) \<Rightarrow>
          (case polling cfg start n c' ps of (s, evs') \<Rightarrow> (s, evs @ evs'))
      | (s, evs) \<Rightarrow> (s, evs))"

fun thermalize :: "config \<Rightarrow> real \<Rightarrow> tick list \<Rightarrow> ending \<times> event list" where
  \<comment> \<open>\<open>while time() < t1: sleep(check_interval); if should_stop(): return\<close>\<close>
  "thermalize cfg t1 [] = (Waiting, [])"
| "thermalize cfg t1 (k # ks) =
     (if tclock k < t1 then
        (case sleep (check_interval cfg) of
           Some e \<Rightarrow> (Raised e, [])
         | None \<Rightarrow>
             if tstop k then (Returned, [Sleep (check_interval cfg), ShouldStop True])
             else (case thermalize cfg t1 ks of (e, evs) \<Rightarrow>
                     (e, Sleep (check_interval cfg) # ShouldStop False # evs)))
      else (Returned, []))"

text \<open>
  The arguments of the call are doubles, taken with their exact values.  The quotient
  \<open>stability_interval / check_interval\<close> is a floating-point division: the exact quotient
  rounded to the nearest double, a tie going to the even significand.  A double has a
  significand of 53 bits, so in the binade \<open>2^e \<le> |x| < 2^(e+1)\<close> neighbouring doubles are
  \<open>2^(e-52)\<close> apart, and below \<open>2^(-1022)\<close> they are \<open>2^(-1074)\<close> apart.  The upper end of the
  exponent range is not modelled: a quotient of \<open>2^1024\<close> or more in size, which is an
  infinity in Python and makes \<open>int\<close> raise OverflowError, is rounded like any other.
\<close>

function halvings :: "real \<Rightarrow> int" where
  \<comment> \<open>for \<open>1 \<le> x\<close>: the \<open>e\<close> with \<open>2^e \<le> x < 2^(e+1)\<close>\<close>
  "halvings x = (if x < 2 then 0 else 1 + halvings (x / 2))"
  by pat_completeness auto
termination
proof (relation "measure (\<lambda>x. nat \<lfloor>x\<rfloor>)")
  show "wf (measure (\<lambda>x :: real. nat \<lfloor>x\<rfloor>))" by simp
next
  fix x :: real
  assume "\<not> x < 2"
  then have "\<lfloor>x / 2\<rfloor> < \<lfloor>x\<rfloor>" "0 < \<lfloor>x\<rfloor>" by linarith+
  then show "(x / 2, x) \<in> measure (\<lambda>x. nat \<lfloor>x\<rfloor>)" by simp
qed

function doublings :: "real \<Rightarrow> int" where
  \<comment> \<open>for \<open>0 < x < 1\<close>: the \<open>e\<close> with \<open>2^e \<le> x < 2^(e+1)\<close>\<close>
  "doublings x = (if x \<le> 0 \<or> 1 \<le> x then 0 else doublings (2 * x) - 1)"
  by pat_completeness auto
termination
proof (relation "measure (\<lambda>x. nat \<lfloor>1 / x\<rfloor>)")
  show "wf (measure (\<lambda>x :: real. nat \<lfloor>1 / x\<rfloor>))" by simp
next
  fix x :: real
  assume "\<not> (x \<le> 0 \<or> 1 \<le> x)"
  then have x: "0 < x" "x < 1" by simp_all
  define y where "y = 1 / x"
  from x have "1 < y" by (simp add: y_def)
  then have "1 \<le> \<lfloor>y\<rfloor>" by simp
  then have "\<lfloor>y / 2\<rfloor> < \<lfloor>y\<rfloor>" and "0 < \<lfloor>y\<rfloor>" by linarith+
  moreover have "1 / (2 * x) = y / 2" by (simp add: y_def)
  ultimately have "\<lfloor>1 / (2 * x)\<rfloor> < \<lfloor>1 / x\<rfloor>" and "0 < \<lfloor>1 / x\<rfloor>"
    by (simp_all only: y_def)
  then show "(2 * x, x) \<in> measure (\<lambda>x. nat \<lfloor>1 / x\<rfloor>)"
    by (simp only: in_measure zless_nat_conj)
qed

declare halvings.simps [simp del] doublings.simps [simp del]

definition binade :: "real \<Rightarrow> int" where
  \<comment> \<open>for \<open>x \<noteq> 0\<close>: the \<open>e\<close> with \<open>2^e \<le> |x| < 2^(e+1)\<close>\<close>
  "binade x = (if 1 \<le> \<bar>x\<bar> then halvings \<bar>x\<bar> else doublings \<bar>x\<bar>)"

definition pow2 :: "int \<Rightarrow> real" where
  "pow2 k = (if 0 \<le> k then 2 ^ nat k else 1 / 2 ^ nat (- k))"

definition round_to_double :: "real \<Rightarrow> real" where
  \<comment> \<open>the double nearest to \<open>x\<close>, a tie going to the even significand\<close>
  "round_to_double x =
     (if x = 0 then 0
      else let ulp = pow2 (max (binade x) (- 1022) - 52)
           in of_int (round_half_even (x / ulp)) * ulp)"

definition float_div :: "real \<Rightarrow> real \<Rightarrow> real" where
  \<comment> \<open>Python's \<open>x / y\<close> on floats, for \<open>y \<noteq> 0\<close>\<close>
  "float_div x y = round_to_double (x / y)"

definition number_of_intervals :: "config \<Rightarrow> int" where
  \<comment> \<open>\<open>int(stability_interval / check_interval)\<close>\<close>
  "number_of_intervals cfg =
     int_of_float (float_div (stability_interval cfg) (check_interval cfg))"

definition start_counters :: counters where
  "start_counters = \<lparr>stable_intervals = 0, attempt = 0, comm_errors = 0\<rparr>"

definition wait_for_temperature :: "config \<Rightarrow> world \<Rightarrow> ending \<times> event list" where
  "wait_for_temperature cfg w =
     (if check_interval cfg = 0 then (Raised ZeroDivisionError, [])
      else case polling cfg (t0 w) (number_of_intervals cfg) start_counters (polls w) of
             (Exit e, evs) \<Rightarrow> (e, evs)
           | (Continue c, evs) \<Rightarrow> (Waiting, evs)
           | (Break c, evs) \<Rightarrow>
               if attempt c = 0 then (Returned, evs)
               else (case thermalize cfg (t_stable w + thermalize_interval cfg) (ticks w) of
                       (e, evs') \<Rightarrow> (e, evs @ evs')))"

section \<open>Parsing numeric replies\<close>

text \<open>
  Python's \<open>float(s)\<close> on a string, after the language reference: surrounding whitespace is
  dropped; then comes an optional sign and either a decimal number (digits, in which single
  underscores may separate digits, with an optional point and an optional exponent) or one
  of the spellings of infinity and not-a-number, in any case.  Anything else is a
  ValueError.  Characters are ASCII; the value of a decimal number is the real number it
  denotes.
\<close>

datatype pyfloat = Finite real | Infinite bool | NaN

definition is_space :: "char \<Rightarrow> bool" where
  \<comment> \<open>tab to carriage return, the four separator controls, and the blank\<close>
  "is_space c =
     ((9 \<le> (of_char c :: nat) \<and> (of_char c :: nat) \<le> 13) \<or>
      (28 \<le> (of_char c :: nat) \<and> (of_char c :: nat) \<le> 32))"

definition strip :: "string \<Rightarrow> string" where
  "strip s = rev (dropWhile is_space (rev (dropWhile is_space s)))"

fun digits_from :: "nat \<Rightarrow> string \<Rightarrow> nat option" where
  \<comment> \<open>the rest of a digit part, after a digit: more digits, each possibly after one
      underscore\<close>
  "digits_from a [] = Some a"
| "digits_from a [c] = (if is_digit c then Some (10 * a + digit_value c) else None)"
| "digits_from a (c # d # ds) =
     (if is_digit c then digits_from (10 * a + digit_value c) (d # ds)
      else if c = CHR ''_'' \<and> is_digit d then digits_from (10 * a + digit_value d) ds
      else None)"

definition digitpart :: "string \<Rightarrow> nat option" where
  "digitpart s =
     (case s of
        [] \<Rightarrow> None
      | c # cs \<Rightarrow> if is_digit c then digits_from (digit_value c) cs else None)"

definition digit_count :: "string \<Rightarrow> nat" where
  "digit_count s = length (filter is_digit s)"

definition number :: "string \<Rightarrow> real option" where
  \<comment> \<open>\<open>[digitpart] "." digitpart | digitpart ["."]\<close>\<close>
  "number s =
     (let ip = takeWhile (\<lambda>c. c \<noteq> CHR ''.'') s;
          rest = dropWhile (\<lambda>c. c \<noteq> CHR ''.'') s
      in case rest of
           [] \<Rightarrow> map_option real (digitpart ip)
         | _ # fp \<Rightarrow>
             if fp = [] then map_option real (digitpart ip)
             else (case digitpart fp of
                     None \<Rightarrow> None
                   | Some f \<Rightarrow>
                       if ip = [] then Some (real f / 10 ^ digit_count fp)
                       else map_option (\<lambda>i. real i + real f / 10 ^ digit_count fp)
                              (digitpart ip)))"

definition exponent :: "string \<Rightarrow> real option" where
  \<comment> \<open>the factor denoted by \<open>[sign] digitpart\<close> after the letter e\<close>
  "exponent s =
     (case s of
        [] \<Rightarrow> None
      | c # cs \<Rightarrow>
          if c = CHR ''-'' then map_option (\<lambda>e. 1 / 10 ^ e) (digitpart cs)
          else if c = CHR ''+'' then map_option (\<lambda>e. 10 ^ e) (digitpart cs)
          else map_option (\<lambda>e. 10 ^ e) (digitpart s))"

definition floatnumber :: "string \<Rightarrow> real option" where
  \<comment> \<open>\<open>number [exponent]\<close>\<close>
  "floatnumber s =
     (let is_e = (\<lambda>c. c = CHR ''e'' \<or> c = CHR ''E'');
          mantissa = takeWhile (\<lambda>c. \<not> is_e c) s;
          rest = dropWhile (\<lambda>c. \<not> is_e c) s
      in case rest of
           [] \<Rightarrow> number mantissa
         | _ # ex \<Rightarrow>
             (case number mantissa of
                None \<Rightarrow> None
              | Some m \<Rightarrow> map_option (\<lambda>f. m * f) (exponent ex)))"

fun spells :: "string \<Rightarrow> string \<Rightarrow> bool" where
  \<comment> \<open>\<open>spells w s\<close>: \<open>s\<close> is the lower-case word \<open>w\<close> in any mix of cases\<close>
  "spells [] [] = True"
| "spells (p # ps) (c # cs) =
     ((c = p \<or> (of_char c :: nat) + 32 = of_char p) \<and> spells ps cs)"
| "spells _ _ = False"

definition absfloatvalue :: "string \<Rightarrow> pyfloat option" where
  "absfloatvalue s =
     (if spells ''inf'' s \<or> spells ''infinity'' s then Some (Infinite True)
      else if spells ''nan'' s then Some NaN
      else map_option Finite (floatnumber s))"

definition negate :: "pyfloat \<Rightarrow> pyfloat" where
  "negate v = (case v of Finite x \<Rightarrow> Finite (- x) | Infinite b \<Rightarrow> Infinite (\<not> b) | NaN \<Rightarrow> NaN)"

definition py_float :: "string \<Rightarrow> exn + pyfloat" where
  "py_float s =
     (let t = strip s;
          v = (case t of
                 [] \<Rightarrow> None
               | c # cs \<Rightarrow>
                   if c = CHR ''-'' then map_option negate (absfloatvalue cs)
                   else if c = CHR ''+'' then absfloatvalue cs
                   else absfloatvalue t)
      in case v of None \<Rightarrow> Inl ValueError | Some x \<Rightarrow> Inr x)"

definition temperature_error :: "string \<Rightarrow> exn + pyfloat" where
  \<comment> \<open>the getter of \<open>temperature_error\<close> applied to the reply \<open>v\<close> to the query \<open>R4\<close>:
      \<open>get_process = lambda v: float(v[1:])\<close>.  Modelled from the spec: that the getter
      built by \<open>Instrument.measurement\<close> (not among the source files) hands the textual
      reply to \<open>get_process\<close> (spec, section 6).\<close>
  "temperature_error v = py_float (drop 1 v)"

definition decimal_value :: "string \<Rightarrow> nat" where
  \<comment> \<open>the number a string of decimal digits denotes\<close>
  "decimal_value ds = foldl (\<lambda>a c. 10 * a + digit_value c) 0 ds"

section \<open>Reading the write sequence\<close>

definition slot_commands :: "int \<Rightarrow> real \<times> real \<times> real \<Rightarrow> command list" where
  \<comment> \<open>the seven writes that program one slot of the table\<close>
  "slot_commands line row =
     (case row of (setpoint, sweep, hold) \<Rightarrow>
        [SetXPointer line, SetYPointer 1, SetSweepTable setpoint,
         SetYPointer 2, SetSweepTable sweep, SetYPointer 3, SetSweepTable hold])"

fun table_writes ::
  "int option \<Rightarrow> int option \<Rightarrow> command list \<Rightarrow> ((int option \<times> int option) \<times> real) list" where
  \<comment> \<open>Modelled from the spec: the instrument's side of the table addressing, which is
      not part of the driver (spec, section 3: the instrument addresses the table via the
      last-written pointer values).  Each value written to \<open>sweep_table\<close> is listed with
      the pointers in force when it arrives, \<open>None\<close> for a pointer never set.\<close>
  "table_writes x y [] = []"
| "table_writes x y (SetXPointer v # cs) = table_writes (Some v) y cs"
| "table_writes x y (SetYPointer v # cs) = table_writes x (Some v) cs"
| "table_writes x y (SetSweepTable v # cs) = ((x, y), v) # table_writes x y cs"
| "table_writes x y (SetSweepStatus v # cs) = table_writes x y cs"

definition slot_cells :: "int \<Rightarrow> real \<times> real \<times> real \<Rightarrow> ((int option \<times> int option) \<times> real) list" where
  \<comment> \<open>the three cells of one slot: setpoint (y = 1), sweep time (y = 2), hold time (y = 3)\<close>
  "slot_cells line row =
     (case row of (setpoint, sweep, hold) \<Rightarrow>
        [((Some line, Some 1), setpoint), ((Some line, Some 2), sweep),
         ((Some line, Some 3), hold)])"

section \<open>Reading the monitor's trace\<close>

fun successful :: "reading list \<Rightarrow> real list" where
  \<comment> \<open>the successfully read samples of a sequence of reads, in order\<close>
  "successful [] = []"
| "successful (ReadError # rs) = successful rs"
| "successful (Reading v # rs) = v # successful rs"

definition in_band :: "real \<Rightarrow> real \<Rightarrow> bool" where
  "in_band err v = (\<bar>v\<bar> < err)"

fun has_run :: "int \<Rightarrow> real \<Rightarrow> real list \<Rightarrow> bool" where
  \<comment> \<open>the specification's criterion: the samples contain at least \<open>n\<close> consecutive
      in-band ones, that is, some suffix starts with that many\<close>
  "has_run n err [] = (n \<le> 0)"
| "has_run n err (v # vs) =
     (n \<le> int (length (takeWhile (in_band err) (v # vs))) \<or> has_run n err vs)"

definition required_samples :: "config \<Rightarrow> int" where
  \<comment> \<open>the sample count in the specification's words:
      \<open>round(stability_interval / check_interval)\<close>\<close>
  "required_samples cfg =
     round_half_even (float_div (stability_interval cfg) (check_interval cfg))"

definition failed_reads :: "reading list \<Rightarrow> nat" where
  "failed_reads rs = length (filter (\<lambda>r. r = ReadError) rs)"

definition read_failures :: "event list \<Rightarrow> nat" where
  \<comment> \<open>the failed reads among the events of a call\<close>
  "read_failures evs = length (filter (\<lambda>e. e = GetTemperatureError ReadError) evs)"

definition logged_errors :: "event list \<Rightarrow> int list" where
  \<comment> \<open>the error numbers written to the log, in order\<close>
  "logged_errors evs = concat (map (\<lambda>e. case e of LogError k \<Rightarrow> [k] | _ \<Rightarrow> []) evs)"

definition excursions :: "real \<Rightarrow> event list \<Rightarrow> nat" where
  \<comment> \<open>the samples read outside the band among the events of a call\<close>
  "excursions err evs =
     length (filter (\<lambda>e. case e of GetTemperatureError (Reading v) \<Rightarrow> \<not> \<bar>v\<bar> < err
                          | _ \<Rightarrow> False) evs)"

definition thermalize_round :: "config \<Rightarrow> event list" where
  \<comment> \<open>one round of the thermalization wait that does not end it\<close>
  "thermalize_round cfg = [Sleep (check_interval cfg), ShouldStop False]"

section \<open>Properties of the sweep table programmer\<close>

lemma then_run_ok: "then_run (None, ws) r = (fst r, ws @ snd r)"
  by (simp add: then_run_def)

lemma slot_writes_ok:
  assumes "0 \<le> line" "line \<le> 128"
  shows "slot_writes line row rest = (fst rest, slot_commands line row @ snd rest)"
  using assms
  by (cases row)
     (simp add: slot_writes_def slot_commands_def x_pointer_set_def y_pointer_set_def
        sweep_table_set_def setting_def strict_range_def then_run_ok)

lemma write_table_ok:
  "0 \<le> line \<Longrightarrow> line + int (length rows) \<le> 129 \<Longrightarrow>
   write_table line rows =
     (None, concat (map (\<lambda>(l, row). slot_commands l row)
                      (zip [line..line + int (length rows) - 1] rows)))"
proof (induction rows arbitrary: line)
  case Nil
  then show ?case by simp
next
  case (Cons row rows)
  have up: "[line..line + int (length (row # rows)) - 1] =
              line # [line + 1..line + 1 + int (length rows) - 1]"
    by (simp add: upto_rec1)
  have ih: "write_table (line + 1) rows =
     (None, concat (map (\<lambda>(l, row). slot_commands l row)
                      (zip [line + 1..line + 1 + int (length rows) - 1] rows)))"
    using Cons.prems by (intro Cons.IH) simp_all
  have "line \<le> 128" using Cons.prems by simp
  then show ?case
    using Cons.prems(1) by (simp only: write_table.simps slot_writes_ok ih up) simp
qed

lemma linspace_length: "linspace a b n = Inr l \<Longrightarrow> int (length l) = n"
  by (auto simp: linspace_def split: if_splits)

lemma interp_length: "interp x xp fp = Inr r \<Longrightarrow> length r = length x"
  by (auto simp: interp_def split: if_splits)

lemma resample_length: "resample steps a = Inr r \<Longrightarrow> length r = length steps"
  by (auto simp: resample_def interp_length split: sum.splits)

lemma resample_nonempty:
  "a \<noteq> [] \<Longrightarrow> \<exists>r. resample steps a = Inr r"
  by (auto simp: resample_def interp_def linspace_def)

lemma resample_empty: "resample steps [] = Inl ValueError"
  by (simp add: resample_def interp_def linspace_def)

lemma pad_length: "pad a n c = Inr r \<Longrightarrow> 0 \<le> n \<and> int (length r) = int (length a) + n"
  by (auto simp: pad_def split: if_splits)

lemma interpolate_arrays_length:
  assumes "interpolate_arrays temperatures sweep_time hold_time steps = Inr (t, s, h)"
  shows "int (length t) = (case steps of None \<Rightarrow> int (length temperatures) | Some k \<Rightarrow> k) \<and>
         length s = length t \<and> length h = length t"
proof -
  from assms obtain st where
    l: "linspace 1 (real_of_int (case steps of None \<Rightarrow> int (length temperatures) | Some k \<Rightarrow> k))
          (case steps of None \<Rightarrow> int (length temperatures) | Some k \<Rightarrow> k) = Inr st"
    and r: "resample st temperatures = Inr t" "resample st sweep_time = Inr s"
       "resample st hold_time = Inr h"
    by (auto simp: interpolate_arrays_def Let_def split: sum.splits)
  from r have "length t = length st" "length s = length st" "length h = length st"
    by (simp_all add: resample_length)
  with linspace_length [OF l] show ?thesis by simp
qed

lemma sweep_arrays_length:
  assumes "sweep_arrays temperatures sweep_time hold_time steps = Inr (t, s, h)"
  shows "length t = 16 \<and> length s = 16 \<and> length h = 16"
proof -
  from assms obtain t' s' h' where
    i: "interpolate_arrays temperatures sweep_time hold_time steps = Inr (t', s', h')"
    and p: "pad t' (16 - int (length t')) (last t') = Inr t"
       "pad s' (16 - int (length t')) 0 = Inr s" "pad h' (16 - int (length t')) 0 = Inr h"
    by (auto simp: sweep_arrays_def pad_arrays_def Let_def split: sum.splits if_splits)
  from interpolate_arrays_length [OF i] have "length s' = length t'" "length h' = length t'"
    by simp_all
  with p show ?thesis
    by (auto dest!: pad_length)
qed

lemma remote_run:
  assumes "control_mode status = Inr mode" "prefix ''R'' mode"
  shows "program_sweep status temperatures sweep_time hold_time steps =
     (case sweep_arrays temperatures sweep_time hold_time steps of
        Inl e \<Rightarrow> (Some e, [SetSweepStatus 0])
      | Inr (t, s, h) \<Rightarrow>
          (fst (write_table 1 (zip t (zip s h))),
           SetSweepStatus 0 # snd (write_table 1 (zip t (zip s h)))))"
  using assms
  by (simp add: program_sweep_def sweep_status_set_def setting_def strict_range_def
        then_run_ok split: sum.splits prod.splits)

lemma table_writes_slot:
  "table_writes x y (slot_commands line row @ cs) =
     slot_cells line row @ table_writes (Some line) (Some 3) cs"
  by (cases row) (simp add: slot_commands_def slot_cells_def)

lemma table_writes_slots:
  "table_writes x y (concat (map (\<lambda>(line, row). slot_commands line row) lrs)) =
     concat (map (\<lambda>(line, row). slot_cells line row) lrs)"
proof (induction lrs arbitrary: x y)
  case Nil
  show ?case by simp
next
  case (Cons lr lrs)
  obtain line row where lr: "lr = (line, row)" by (cases lr)
  show ?case
    by (simp add: lr table_writes_slot Cons.IH)
qed

lemma status_RU: "control_mode ''X0A0C3S00H1L0'' = Inr ''RU''"
  by (simp add: control_mode_def int_of_slice_def is_digit_def digit_value_def
        control_mode_values_def)

lemma example_arrays:
  "sweep_arrays [100, 200, 300] [5] [2] (Some 3) =
     Inr ([100, 200, 300] @ replicate 13 300, [5, 5, 5] @ replicate 13 0,
          [2, 2, 2] @ replicate 13 0)"
  by (simp add: sweep_arrays_def interpolate_arrays_def pad_arrays_def linspace_def
        resample_def interp_def pad_def rint_def round_half_even_def Let_def upt_rec
        numeral_eq_Suc)

lemma slots_1_16: "[1..16] = [1, 2, 3, 4, 5, 6, 7, 8, 9, 10, 11, 12, 13, 14, 15, 16 :: int]"
  by (simp add: upto_rec1)

lemma linspace_ok: "0 \<le> n \<Longrightarrow> \<exists>l. linspace a b n = Inr l"
  by (simp add: linspace_def)

text \<open>
  The model of \<open>numpy.interp\<close> is the library's on non-decreasing sample points.  The
  sample points the programmer passes are the rounded values of a \<open>linspace\<close> from 1 to
  the number of steps; whenever there is a step to interpolate at, they are non-decreasing.
\<close>

lemma round_half_even_bounds: "\<lfloor>x\<rfloor> \<le> round_half_even x \<and> round_half_even x \<le> \<lfloor>x\<rfloor> + 1"
  by (simp add: round_half_even_def Let_def)

lemma round_half_even_mono:
  assumes "x \<le> y"
  shows "round_half_even x \<le> round_half_even y"
proof (cases "\<lfloor>x\<rfloor> = \<lfloor>y\<rfloor>")
  case True
  with assms show ?thesis
    by (auto simp: round_half_even_def Let_def)
next
  case False
  with assms have "\<lfloor>x\<rfloor> + 1 \<le> \<lfloor>y\<rfloor>"
    using floor_mono [OF assms] by linarith
  with round_half_even_bounds [of x] round_half_even_bounds [of y] show ?thesis
    by linarith
qed

lemma resample_points_sorted:
  assumes "steps \<noteq> []"
    and "linspace 1 (real (length steps)) (int (length a)) = Inr l"
  shows "sorted (map rint l)"
proof (cases "length a \<le> 1")
  case True
  then have "length a = 0 \<or> length a = 1" by linarith
  with assms(2) show ?thesis
    by (auto simp: linspace_def)
next
  case False
  define d where "d = (real (length steps) - 1) / real_of_int (int (length a) - 1)"
  from False assms(2) d_def have l: "l = map (\<lambda>i. 1 + real i * d) [0..<length a]"
    by (auto simp: linspace_def split: if_splits)
  have d: "0 \<le> d"
  proof -
    from assms(1) have "1 \<le> length steps" by (cases steps) simp_all
    then have "0 \<le> real (length steps) - 1" by simp
    moreover from False have "0 \<le> real_of_int (int (length a) - 1)" by simp
    ultimately show ?thesis unfolding d_def by (rule divide_nonneg_nonneg)
  qed
  have mono: "rint (1 + real i * d) \<le> rint (1 + real j * d)" if "i < j" for i j :: nat
  proof -
    from that have "real i \<le> real j" by simp
    from mult_right_mono [OF this d] have "1 + real i * d \<le> 1 + real j * d"
      by (rule add_left_mono)
    from round_half_even_mono [OF this] show ?thesis
      by (simp only: rint_def of_int_le_iff)
  qed
  have "sorted_wrt (\<lambda>i j. rint (1 + real i * d) \<le> rint (1 + real j * d)) [0..<length a]"
    by (rule sorted_wrt_mono_rel [OF _ sorted_wrt_upt [of 0 "length a"]]) (rule mono)
  then show ?thesis
    unfolding l by (simp only: sorted_map list.map_comp o_def)
qed

lemma program_sweep_ok:
  assumes "control_mode status = Inr mode" and "prefix ''R'' mode"
    and "sweep_arrays temperatures sweep_time hold_time steps = Inr (t, s, h)"
  shows "program_sweep status temperatures sweep_time hold_time steps =
           (None, SetSweepStatus 0 #
                  concat (map (\<lambda>(line, row). slot_commands line row)
                            (zip [1..16] (zip t (zip s h)))))"
proof -
  from assms(3) have len: "length t = 16" "length s = 16" "length h = 16"
    by (simp_all add: sweep_arrays_length)
  have "write_table 1 (zip t (zip s h)) =
          (None, concat (map (\<lambda>(line, row). slot_commands line row)
                           (zip [1..1 + int (length (zip t (zip s h))) - 1] (zip t (zip s h)))))"
    by (rule write_table_ok) (simp_all add: len)
  then have "write_table 1 (zip t (zip s h)) =
          (None, concat (map (\<lambda>(line, row). slot_commands line row)
                           (zip [1..16] (zip t (zip s h)))))"
    by (simp add: len)
  then show ?thesis
    by (simp add: remote_run [OF assms(1,2)] assms(3))
qed

lemma sweep_arrays_too_many:
  assumes "16 < (case steps of None \<Rightarrow> int (length temperatures) | Some k \<Rightarrow> k)"
  shows "sweep_arrays temperatures sweep_time hold_time steps = Inl ValueError"
proof (cases "interpolate_arrays temperatures sweep_time hold_time steps")
  case (Inl e)
  then have "e = ValueError"
    using assms
    by (auto simp: interpolate_arrays_def Let_def linspace_def resample_def interp_def
          split: sum.splits if_splits)
  with Inl show ?thesis by (simp add: sweep_arrays_def)
next
  case (Inr a)
  obtain t s h where a: "a = (t, s, h)" by (cases a)
  from interpolate_arrays_length [OF Inr [unfolded a]] assms have "16 < int (length t)"
    by simp
  then have "pad_arrays (t, s, h) = Inl ValueError"
    by (auto simp: pad_arrays_def pad_def Let_def)
  with Inr a show ?thesis by (simp add: sweep_arrays_def)
qed

lemma interpolate_arrays_nonempty:
  assumes "0 \<le> (case steps of None \<Rightarrow> int (length temperatures) | Some k \<Rightarrow> k)"
    and "temperatures \<noteq> []" "sweep_time \<noteq> []" "hold_time \<noteq> []"
  shows "\<exists>t s h. interpolate_arrays temperatures sweep_time hold_time steps = Inr (t, s, h)"
proof -
  let ?n = "case steps of None \<Rightarrow> int (length temperatures) | Some k \<Rightarrow> k"
  obtain st where st: "linspace 1 (real_of_int ?n) ?n = Inr st"
    using linspace_ok [OF assms(1)] by blast
  obtain t s h where "resample st temperatures = Inr t" "resample st sweep_time = Inr s"
      "resample st hold_time = Inr h"
    using resample_nonempty assms(2-4) by meson
  with st show ?thesis
    by (simp add: interpolate_arrays_def Let_def)
qed

text \<open>
  C1.  In a remote control mode, \<open>program_sweep([100,200,300], sweep_time=5, hold_time=2,
  steps=3)\<close> stops the sweep and then programs slots 1 to 3 with (100,5,2), (200,5,2),
  (300,5,2) and slots 4 to 16 with (300,0,0): the setpoint column is padded with the last
  setpoint, the two time columns with zero, up to 16 slots.
\<close>

theorem program_sweep_example:
  assumes "control_mode status = Inr mode" and "prefix ''R'' mode"
  shows "program_sweep status [100, 200, 300] [5] [2] (Some 3) =
           (None, SetSweepStatus 0 #
                  concat (map (\<lambda>(line, row). slot_commands line row)
                            ([(1, (100, 5, 2)), (2, (200, 5, 2)), (3, (300, 5, 2))] @
                             map (\<lambda>line. (line, (300, 0, 0))) [4..16])))"
  by (simp add: program_sweep_ok [OF assms example_arrays] slots_1_16 numeral_eq_Suc)

theorem program_sweep_example_witness:
  "control_mode ''X0A0C3S00H1L0'' = Inr ''RU'' \<and> prefix ''R'' ''RU'' \<and>
   program_sweep ''X0A0C3S00H1L0'' [100, 200, 300] [5] [2] (Some 3) =
     (None, SetSweepStatus 0 #
            concat (map (\<lambda>(line, row). slot_commands line row)
                      ([(1, (100, 5, 2)), (2, (200, 5, 2)), (3, (300, 5, 2))] @
                       map (\<lambda>line. (line, (300, 0, 0))) [4..16])))"
proof -
  have r: "prefix ''R'' ''RU''" by simp
  show ?thesis
    using status_RU r program_sweep_example [OF status_RU r] by simp
qed

text \<open>
  C2.  When \<open>control_mode\<close> reports a LOCAL state (LL or LU), \<open>program_sweep\<close> raises
  the precondition error (AttributeError) and has written nothing to the instrument: no
  sweep status, no pointer, no table value.  (Reading \<open>control_mode\<close> queries the
  instrument's status; that read is the input \<open>status\<close>, not a write.)
\<close>

theorem program_sweep_local_no_writes:
  assumes "control_mode status = Inr mode" and "mode = ''LL'' \<or> mode = ''LU''"
  shows "program_sweep status temperatures sweep_time hold_time steps =
           (Some AttributeError, [])"
  using assms by (auto simp: program_sweep_def)

theorem program_sweep_local_no_writes_witness:
  "control_mode ''X0A0C2S00H1L0'' = Inr ''LU'' \<and>
   program_sweep ''X0A0C2S00H1L0'' [100, 200, 300] [5] [2] (Some 3) =
     (Some AttributeError, [])"
proof -
  have m: "control_mode ''X0A0C2S00H1L0'' = Inr ''LU''"
    by (simp add: control_mode_def int_of_slice_def is_digit_def digit_value_def
          control_mode_values_def)
  show ?thesis
    using m program_sweep_local_no_writes [OF m, of "[100, 200, 300]" "[5]" "[2]" "Some 3"]
    by simp
qed

text \<open>
  C9.  A call of \<open>program_sweep\<close> that reaches the table-writing phase (remote mode, the
  three padded columns computed) writes, after the sweep-status write, the slots 1 to 16 in
  increasing order, and for each slot exactly: the x pointer, then y pointer 1 and the
  setpoint, y pointer 2 and the sweep time, y pointer 3 and the hold time.  Seen from the
  instrument, every table value arrives with both pointers set, at the cell meant for it.
\<close>

theorem program_sweep_write_order:
  assumes "control_mode status = Inr mode" and "prefix ''R'' mode"
    and "sweep_arrays temperatures sweep_time hold_time steps = Inr (t, s, h)"
  shows "length (zip t (zip s h)) = 16 \<and>
         program_sweep status temperatures sweep_time hold_time steps =
           (None, SetSweepStatus 0 #
                  concat (map (\<lambda>(line, row). slot_commands line row)
                            (zip [1..16] (zip t (zip s h))))) \<and>
         table_writes None None
             (snd (program_sweep status temperatures sweep_time hold_time steps)) =
           concat (map (\<lambda>(line, row). slot_cells line row) (zip [1..16] (zip t (zip s h))))"
proof -
  from assms(3) have len: "length t = 16" "length s = 16" "length h = 16"
    by (simp_all add: sweep_arrays_length)
  then have "length (zip t (zip s h)) = 16" by simp
  then show ?thesis
    by (simp add: program_sweep_ok [OF assms] table_writes_slots)
qed

theorem program_sweep_write_order_witness:
  "control_mode ''X0A0C3S00H1L0'' = Inr ''RU'' \<and> prefix ''R'' ''RU'' \<and>
   sweep_arrays [100, 200, 300] [5] [2] (Some 3) =
     Inr ([100, 200, 300] @ replicate 13 300, [5, 5, 5] @ replicate 13 0,
          [2, 2, 2] @ replicate 13 0) \<and>
   table_writes None None
       (snd (program_sweep ''X0A0C3S00H1L0'' [100, 200, 300] [5] [2] (Some 3))) =
     concat (map (\<lambda>(line, row). slot_cells line row)
               (zip [1..16]
                  (zip ([100, 200, 300] @ replicate 13 300)
                     (zip ([5, 5, 5] @ replicate 13 0) ([2, 2, 2] @ replicate 13 0)))))"
proof -
  have r: "prefix ''R'' ''RU''" by simp
  note w = program_sweep_write_order [OF status_RU r example_arrays]
  from status_RU r example_arrays w show ?thesis by blast
qed

text \<open>
  C10.  In remote mode, a call of \<open>program_sweep\<close> with more than 16 steps (given, or
  taken from the number of temperatures) raises ValueError after the sweep-status write
  and before any pointer or table write, so no pointer outside 1 to 16 is written.  When
  none of the three arrays is empty the interpolation succeeds and it is the padding, with
  its negative width, that raises.
\<close>

theorem program_sweep_too_many_steps:
  assumes "control_mode status = Inr mode" and "prefix ''R'' mode"
    and "16 < (case steps of None \<Rightarrow> int (length temperatures) | Some k \<Rightarrow> k)"
  shows "program_sweep status temperatures sweep_time hold_time steps =
           (Some ValueError, [SetSweepStatus 0]) \<and>
         (temperatures \<noteq> [] \<and> sweep_time \<noteq> [] \<and> hold_time \<noteq> [] \<longrightarrow>
            (\<exists>t' s' h'. interpolate_arrays temperatures sweep_time hold_time steps =
                 Inr (t', s', h') \<and>
               16 - int (length t') < 0 \<and>
               pad t' (16 - int (length t')) (last t') = Inl ValueError))"
proof -
  have 1: "program_sweep status temperatures sweep_time hold_time steps =
             (Some ValueError, [SetSweepStatus 0])"
    by (simp add: remote_run [OF assms(1,2)] sweep_arrays_too_many [OF assms(3)])
  have 2: "\<exists>t' s' h'. interpolate_arrays temperatures sweep_time hold_time steps =
                 Inr (t', s', h') \<and>
               16 - int (length t') < 0 \<and>
               pad t' (16 - int (length t')) (last t') = Inl ValueError"
    if ne: "temperatures \<noteq> []" "sweep_time \<noteq> []" "hold_time \<noteq> []"
  proof -
    from assms(3) have "0 \<le> (case steps of None \<Rightarrow> int (length temperatures) | Some k \<Rightarrow> k)"
      by simp
    from interpolate_arrays_nonempty [OF this ne] obtain t' s' h' where
      i: "interpolate_arrays temperatures sweep_time hold_time steps = Inr (t', s', h')"
      by blast
    from interpolate_arrays_length [OF i] assms(3) have "16 - int (length t') < 0"
      by simp
    then have "pad t' (16 - int (length t')) (last t') = Inl ValueError"
      by (simp add: pad_def)
    with i \<open>16 - int (length t') < 0\<close> show ?thesis by blast
  qed
  from 1 2 show ?thesis by blast
qed

theorem program_sweep_too_many_steps_witness:
  "control_mode ''X0A0C3S00H1L0'' = Inr ''RU'' \<and> prefix ''R'' ''RU'' \<and>
   16 < (case Some 17 of None \<Rightarrow> int (length [100, 200 :: real]) | Some k \<Rightarrow> k) \<and>
   program_sweep ''X0A0C3S00H1L0'' [100, 200] [5] [2] (Some 17) =
     (Some ValueError, [SetSweepStatus 0])"
proof -
  have r: "prefix ''R'' ''RU''" by simp
  have n: "16 < (case Some 17 of None \<Rightarrow> int (length [100, 200 :: real]) | Some k \<Rightarrow> k)"
    by simp
  show ?thesis
    using status_RU r n
      program_sweep_too_many_steps [OF status_RU r n, of "[5]" "[2]"]
    by simp
qed

section \<open>Properties of the floating-point quotient\<close>

lemma halvings_bounds:
  "1 \<le> x \<Longrightarrow> 0 \<le> halvings x \<and> 2 ^ nat (halvings x) \<le> x \<and> x < 2 * 2 ^ nat (halvings x)"
proof (induction x rule: halvings.induct)
  case (1 x)
  show ?case
  proof (cases "x < 2")
    case True
    with "1.prems" show ?thesis by (simp add: halvings.simps)
  next
    case False
    then have "1 \<le> x / 2" by simp
    from "1.IH" [OF False this]
    have ih: "0 \<le> halvings (x / 2)" "2 ^ nat (halvings (x / 2)) \<le> x / 2"
      "x / 2 < 2 * 2 ^ nat (halvings (x / 2))"
      by simp_all
    from False have h: "halvings x = 1 + halvings (x / 2)"
      by (subst halvings.simps) simp
    from ih(1) have n: "nat (1 + halvings (x / 2)) = Suc (nat (halvings (x / 2)))"
      by simp
    from ih show ?thesis
      unfolding h n by simp
  qed
qed

lemma doublings_bounds:
  "0 < x \<Longrightarrow> x < 1 \<Longrightarrow>
   doublings x < 0 \<and> 1 / 2 ^ nat (- doublings x) \<le> x \<and> x < 2 / 2 ^ nat (- doublings x)"
proof (induction x rule: doublings.induct)
  case (1 x)
  from "1.prems" have rec: "\<not> (x \<le> 0 \<or> 1 \<le> x)" by simp
  then have d: "doublings x = doublings (2 * x) - 1"
    by (subst doublings.simps) simp
  show ?case
  proof (cases "1 \<le> 2 * x")
    case True
    then have "doublings (2 * x) = 0" by (subst doublings.simps) simp
    with True "1.prems" show ?thesis by (simp add: d)
  next
    case False
    with "1.prems" have "0 < 2 * x" "2 * x < 1" by simp_all
    from "1.IH" [OF rec this]
    have ih: "doublings (2 * x) < 0" "1 / 2 ^ nat (- doublings (2 * x)) \<le> 2 * x"
      "2 * x < 2 / 2 ^ nat (- doublings (2 * x))"
      by simp_all
    from ih(1) have n: "nat (- (doublings (2 * x) - 1)) = Suc (nat (- doublings (2 * x)))"
      by simp
    from ih show ?thesis
      unfolding d n by (simp add: field_simps)
  qed
qed

text \<open>
  The binade of a number other than zero is the one it lies in.
\<close>

lemma binade_bounds:
  assumes "x \<noteq> 0"
  shows "pow2 (binade x) \<le> \<bar>x\<bar> \<and> \<bar>x\<bar> < pow2 (binade x + 1)"
proof (cases "1 \<le> \<bar>x\<bar>")
  case True
  from halvings_bounds [OF True] True show ?thesis
    by (simp add: binade_def pow2_def nat_add_distrib)
next
  case False
  with assms have x: "0 < \<bar>x\<bar>" "\<bar>x\<bar> < 1" by simp_all
  note b = doublings_bounds [OF x]
  show ?thesis
  proof (cases "doublings \<bar>x\<bar> = - 1")
    case True
    with b False show ?thesis by (simp add: binade_def pow2_def)
  next
    case False
    with b have lt: "doublings \<bar>x\<bar> + 1 < 0" by simp
    then have "nat (- doublings \<bar>x\<bar>) = Suc (nat (- (doublings \<bar>x\<bar> + 1)))"
      by simp
    with b lt \<open>\<not> 1 \<le> \<bar>x\<bar>\<close> show ?thesis
      by (simp add: binade_def pow2_def)
  qed
qed

lemmas float_div_unfold =
  float_div_def round_to_double_def binade_def halvings.simps doublings.simps pow2_def
  round_half_even_def Let_def

lemma float_div_examples:
  "float_div 3 2 = 3 / 2" "float_div 1 (1 / 2) = 2" "float_div (1 / 2) (1 / 2) = 1"
  "float_div 10 (1 / 2) = 20" "float_div 0 (1 / 2) = 0"
  by (simp_all add: float_div_unfold)

text \<open>
  The rounding of the quotient matters.  The decimals \<open>0.1\<close> and \<open>0.3\<close> are no doubles;
  a Python program that writes them passes the nearest doubles.  With
  \<open>stability_interval = 10\<close> and \<open>check_interval = 0.1\<close> the exact quotient of the doubles is
  just below 100 and the floating-point quotient is 100: the driver asks for 100 samples.
  With \<open>stability_interval = 0.3\<close> and \<open>check_interval = 0.1\<close> the floating-point quotient
  is just below 3 and the driver asks for 2.
\<close>

lemma double_literals:
  "round_to_double (1 / 10) = 3602879701896397 / 36028797018963968"
  "round_to_double (3 / 10) = 5404319552844595 / 18014398509481984"
  "round_to_double 10 = 10"
  by (simp_all add: float_div_unfold)

lemma float_div_tenth:
  "float_div 10 (3602879701896397 / 36028797018963968) = 100"
  "float_div (5404319552844595 / 18014398509481984) (3602879701896397 / 36028797018963968) =
     6755399441055743 / 2251799813685248"
  by (simp_all add: float_div_unfold)

lemma number_of_intervals_rounded_quotient:
  assumes "stability_interval cfg = round_to_double 10"
    and "check_interval cfg = round_to_double (1 / 10)"
  shows "number_of_intervals cfg = 100"
    and "\<lfloor>stability_interval cfg / check_interval cfg\<rfloor> = 99"
  unfolding number_of_intervals_def assms double_literals float_div_tenth
  by (simp_all add: int_of_float_def)

lemma number_of_intervals_rounded_down:
  assumes "stability_interval cfg = round_to_double (3 / 10)"
    and "check_interval cfg = round_to_double (1 / 10)"
  shows "number_of_intervals cfg = 2"
  unfolding number_of_intervals_def assms double_literals float_div_tenth
  by (simp add: int_of_float_def)

section \<open>Properties of the stability monitor\<close>

lemma take_reading_failed:
  "take_reading cfg c ReadError =
     (c\<lparr>comm_errors := comm_errors c + 1\<rparr>,
      [GetTemperatureError ReadError, LogError (comm_errors c + 1)])"
  by (simp add: take_reading_def)

lemma take_reading_in_band:
  "in_band (error cfg) v \<Longrightarrow>
   take_reading cfg c (Reading v) =
     (c\<lparr>stable_intervals := stable_intervals c + 1\<rparr>, [GetTemperatureError (Reading v)])"
  by (simp add: take_reading_def in_band_def)

lemma take_reading_out_of_band:
  "\<not> in_band (error cfg) v \<Longrightarrow>
   take_reading cfg c (Reading v) =
     (c\<lparr>stable_intervals := 0, attempt := attempt c + 1\<rparr>, [GetTemperatureError (Reading v)])"
  by (simp add: take_reading_def in_band_def)

lemma poll_body_fst:
  "fst (poll_body cfg st n c p) =
     (let c' = fst (take_reading cfg c (reading p))
      in if n \<le> stable_intervals c' then Break c'
         else if 0 < timeout cfg \<and> timeout cfg < clock p - st then Exit (Raised TimeoutError)
         else if (case max_comm_errors cfg of None \<Rightarrow> False | Some m \<Rightarrow> m < comm_errors c')
           then Exit (Raised ValueError)
         else if stop p then Exit Returned
         else if check_interval cfg < 0 then Exit (Raised ValueError)
         else Continue c')"
  by (cases "take_reading cfg c (reading p)") (simp add: poll_body_def sleep_def Let_def)

lemma polling_Cons_fst:
  "fst (polling cfg st n c (p # ps)) =
     (case fst (poll_body cfg st n c p) of
        Continue c' \<Rightarrow> fst (polling cfg st n c' ps)
      | Break c' \<Rightarrow> Break c'
      | Exit e \<Rightarrow> Exit e)"
  by (cases "poll_body cfg st n c p") (auto split: status.splits prod.splits)

lemma polling_append:
  "polling cfg st n c (pre @ qs) =
     (case polling cfg st n c pre of
        (Continue c', evs) \<Rightarrow>
          (case polling cfg st n c' qs of (s, evs') \<Rightarrow> (s, evs @ evs'))
      | (Break c', evs) \<Rightarrow> (Break c', evs)
      | (Exit e, evs) \<Rightarrow> (Exit e, evs))"
  by (induction pre arbitrary: c) (auto split: prod.splits status.splits)

lemma polling_append_fst:
  "fst (polling cfg st n c pre) = Continue c' \<Longrightarrow>
   fst (polling cfg st n c (pre @ qs)) = fst (polling cfg st n c' qs)"
  by (cases "polling cfg st n c pre"; cases "polling cfg st n c' qs")
     (simp add: polling_append)

lemma has_run_nonpositive: "n \<le> 0 \<Longrightarrow> has_run n err vs"
  by (cases vs) simp_all

lemma has_run_prefix:
  "0 < n \<Longrightarrow> n \<le> int (length (takeWhile (in_band err) vs)) \<Longrightarrow> has_run n err vs"
  by (cases vs) simp_all

lemma break_has_run_from:
  assumes "fst (polling cfg st n c ps) = Break c'"
    and "0 \<le> stable_intervals c" and "stable_intervals c < n"
  shows "n - stable_intervals c
           \<le> int (length (takeWhile (in_band (error cfg)) (successful (map reading ps)))) \<or>
         has_run n (error cfg) (successful (map reading ps))"
  using assms
proof (induction ps arbitrary: c)
  case Nil
  then show ?case by simp
next
  case (Cons p ps)
  let ?c = "fst (take_reading cfg c (reading p))"
  show ?case
  proof (cases "reading p")
    case ReadError
    then have c1: "stable_intervals ?c = stable_intervals c"
      by (simp add: take_reading_failed)
    with Cons.prems have "fst (polling cfg st n ?c ps) = Break c'"
      by (auto simp: polling_Cons_fst poll_body_fst Let_def simp del: polling.simps
            split: if_splits)
    from Cons.IH [OF this] c1 Cons.prems(2,3) show ?thesis
      by (simp add: ReadError)
  next
    case (Reading v)
    show ?thesis
    proof (cases "in_band (error cfg) v")
      case True
      then have c1: "stable_intervals ?c = stable_intervals c + 1"
        by (simp add: Reading take_reading_in_band)
      show ?thesis
      proof (cases "n \<le> stable_intervals c + 1")
        case True
        with \<open>in_band (error cfg) v\<close> show ?thesis
          by (simp add: Reading)
      next
        case False
        with c1 Cons.prems have "fst (polling cfg st n ?c ps) = Break c'"
          by (auto simp: polling_Cons_fst poll_body_fst Let_def simp del: polling.simps
            split: if_splits)
        from Cons.IH [OF this] c1 Cons.prems(2) False \<open>in_band (error cfg) v\<close>
        show ?thesis
          by (auto simp: Reading)
      qed
    next
      case False
      then have c1: "stable_intervals ?c = 0"
        by (simp add: Reading take_reading_out_of_band)
      from Cons.prems(2,3) have n: "0 < n" by simp
      with c1 Cons.prems have "fst (polling cfg st n ?c ps) = Break c'"
        by (auto simp: polling_Cons_fst poll_body_fst Let_def simp del: polling.simps
            split: if_splits)
      from Cons.IH [OF this] c1 n
      have "n \<le> int (length (takeWhile (in_band (error cfg)) (successful (map reading ps)))) \<or>
            has_run n (error cfg) (successful (map reading ps))"
        by simp
      with has_run_prefix [OF n] have "has_run n (error cfg) (successful (map reading ps))"
        by blast
      then show ?thesis
        by (simp add: Reading)
    qed
  qed
qed

lemma break_has_run:
  assumes "fst (polling cfg st n start_counters ps) = Break c'"
  shows "has_run n (error cfg) (successful (map reading ps))"
proof (cases "0 < n")
  case True
  with break_has_run_from [OF assms] has_run_prefix [OF True] show ?thesis
    by (auto simp: start_counters_def)
next
  case False
  then show ?thesis by (simp add: has_run_nonpositive)
qed

lemma comm_errors_take_reading:
  "comm_errors (fst (take_reading cfg c r)) = comm_errors c + int (failed_reads [r])"
  by (cases r) (simp_all add: take_reading_def failed_reads_def)

lemma failed_reads_Cons: "failed_reads (r # rs) = failed_reads [r] + failed_reads rs"
  by (simp add: failed_reads_def)

lemma failed_reads_append: "failed_reads (rs @ rs') = failed_reads rs + failed_reads rs'"
  by (simp add: failed_reads_def)

lemma poll_body_quiet:
  assumes "0 \<le> check_interval cfg" and "\<not> stop p"
    and "\<not> (0 < timeout cfg \<and> timeout cfg < clock p - st)"
    and "\<forall>m. max_comm_errors cfg = Some m \<longrightarrow>
           comm_errors (fst (take_reading cfg c (reading p))) \<le> m"
  shows "fst (poll_body cfg st n c p) =
           (if n \<le> stable_intervals (fst (take_reading cfg c (reading p)))
            then Break (fst (take_reading cfg c (reading p)))
            else Continue (fst (take_reading cfg c (reading p))))"
  using assms by (auto simp: poll_body_fst Let_def split: option.splits)

lemma has_run_break_from:
  assumes "0 \<le> check_interval cfg" and "\<forall>p\<in>set ps. \<not> stop p"
    and "\<forall>p\<in>set ps. \<not> (0 < timeout cfg \<and> timeout cfg < clock p - st)"
    and "\<forall>m. max_comm_errors cfg = Some m \<longrightarrow>
           comm_errors c + int (failed_reads (map reading ps)) \<le> m"
    and "0 \<le> stable_intervals c" and "stable_intervals c < n"
    and "n - stable_intervals c
           \<le> int (length (takeWhile (in_band (error cfg)) (successful (map reading ps)))) \<or>
         has_run n (error cfg) (successful (map reading ps))"
  shows "\<exists>c'. fst (polling cfg st n c ps) = Break c'"
  using assms(2-)
proof (induction ps arbitrary: c)
  case Nil
  then show ?case by simp
next
  case (Cons p ps)
  let ?c = "fst (take_reading cfg c (reading p))"
  have budget: "\<forall>m. max_comm_errors cfg = Some m \<longrightarrow>
                  comm_errors ?c + int (failed_reads (map reading ps)) \<le> m"
    using Cons.prems(3) failed_reads_Cons [of "reading p" "map reading ps"]
    by (auto simp: comm_errors_take_reading)
  then have "\<forall>m. max_comm_errors cfg = Some m \<longrightarrow> comm_errors ?c \<le> m"
    by fastforce
  with Cons.prems(1,2) assms(1)
  have body: "fst (poll_body cfg st n c p) =
                (if n \<le> stable_intervals ?c then Break ?c else Continue ?c)"
    by (intro poll_body_quiet) simp_all
  show ?case
  proof (cases "n \<le> stable_intervals ?c")
    case True
    then show ?thesis
      by (simp add: polling_Cons_fst body del: polling.simps)
  next
    case False
    then have step: "fst (polling cfg st n c (p # ps)) = fst (polling cfg st n ?c ps)"
      by (simp add: polling_Cons_fst body del: polling.simps)
    have quiet: "\<forall>p\<in>set ps. \<not> stop p"
      "\<forall>p\<in>set ps. \<not> (0 < timeout cfg \<and> timeout cfg < clock p - st)"
      using Cons.prems(1,2) by simp_all
    have "0 \<le> stable_intervals ?c \<and> 
          (n - stable_intervals ?c
             \<le> int (length (takeWhile (in_band (error cfg)) (successful (map reading ps)))) \<or>
           has_run n (error cfg) (successful (map reading ps)))"
    proof (cases "reading p")
      case ReadError
      with Cons.prems(4,5,6) show ?thesis
        by (simp add: take_reading_failed)
    next
      case (Reading v)
      show ?thesis
      proof (cases "in_band (error cfg) v")
        case True
        with Cons.prems(4,5,6) False show ?thesis
          by (auto simp: Reading take_reading_in_band)
      next
        case False
        with Cons.prems(4,5,6) show ?thesis
          by (auto simp: Reading take_reading_out_of_band)
      qed
    qed
    with Cons.IH [OF quiet budget] False step show ?thesis
      by simp
  qed
qed

lemma has_run_break:
  assumes "0 \<le> check_interval cfg" and "ps \<noteq> []" and "\<forall>p\<in>set ps. \<not> stop p"
    and "\<forall>p\<in>set ps. \<not> (0 < timeout cfg \<and> timeout cfg < clock p - st)"
    and "\<forall>m. max_comm_errors cfg = Some m \<longrightarrow> int (failed_reads (map reading ps)) \<le> m"
    and "has_run n (error cfg) (successful (map reading ps))"
  shows "\<exists>c'. fst (polling cfg st n start_counters ps) = Break c'"
proof (cases "0 < n")
  case True
  show ?thesis
    by (rule has_run_break_from [OF assms(1,3,4)])
       (use assms(5,6) True in \<open>simp_all add: start_counters_def\<close>)
next
  case False
  obtain p ps' where ps: "ps = p # ps'" using assms(2) by (cases ps) auto
  have "0 \<le> stable_intervals (fst (take_reading cfg start_counters (reading p)))"
    by (cases "reading p") (simp_all add: take_reading_def start_counters_def)
  with False have "n \<le> stable_intervals (fst (take_reading cfg start_counters (reading p)))"
    by simp
  then show ?thesis
    by (simp add: ps polling_Cons_fst poll_body_fst Let_def del: polling.simps)
qed

lemma has_run_iff_run:
  "has_run n err vs \<longleftrightarrow>
     (\<exists>us run ws. vs = us @ run @ ws \<and> n \<le> int (length run) \<and>
                   (\<forall>v\<in>set run. in_band err v))"
proof
  assume "has_run n err vs"
  then show "\<exists>us run ws. vs = us @ run @ ws \<and> n \<le> int (length run) \<and>
                          (\<forall>v\<in>set run. in_band err v)"
  proof (induction vs)
    case Nil
    then have "[] = [] @ [] @ ([] :: real list) \<and> n \<le> int (length ([] :: real list)) \<and>
               (\<forall>v\<in>set ([] :: real list). in_band err v)"
      by simp
    then show ?case by blast
  next
    case (Cons v vs)
    show ?case
    proof (cases "n \<le> int (length (takeWhile (in_band err) (v # vs)))")
      case True
      have "v # vs = [] @ takeWhile (in_band err) (v # vs) @ dropWhile (in_band err) (v # vs)"
        by simp
      moreover have "\<forall>x\<in>set (takeWhile (in_band err) (v # vs)). in_band err x"
        by (meson set_takeWhileD)
      ultimately show ?thesis using True by blast
    next
      case False
      with Cons.prems have "has_run n err vs" by simp
      from Cons.IH [OF this] obtain us run ws where
        "vs = us @ run @ ws" "n \<le> int (length run)" "\<forall>v\<in>set run. in_band err v"
        by blast
      then have "v # vs = (v # us) @ run @ ws \<and> n \<le> int (length run) \<and>
                 (\<forall>v\<in>set run. in_band err v)"
        by simp
      then show ?thesis by blast
    qed
  qed
next
  assume "\<exists>us run ws. vs = us @ run @ ws \<and> n \<le> int (length run) \<and>
                       (\<forall>v\<in>set run. in_band err v)"
  then obtain us run ws where
    vs: "vs = us @ run @ ws" and n: "n \<le> int (length run)"
    and band: "\<forall>v\<in>set run. in_band err v"
    by blast
  have run: "has_run n err (run @ ws)"
  proof (cases "run @ ws")
    case Nil
    with n show ?thesis by simp
  next
    case (Cons x xs)
    from band have "takeWhile (in_band err) (run @ ws) = run @ takeWhile (in_band err) ws"
      by simp
    with n have "n \<le> int (length (takeWhile (in_band err) (run @ ws)))"
      by simp
    then show ?thesis
      by (simp add: Cons)
  qed
  show "has_run n err vs"
    unfolding vs using run by (induction us) simp_all
qed

lemma read_failures_append: "read_failures (a @ b) = read_failures a + read_failures b"
  by (simp add: read_failures_def)

lemma excursions_append: "excursions err (a @ b) = excursions err a + excursions err b"
  by (simp add: excursions_def)

lemma read_failures_take_reading:
  "read_failures (snd (take_reading cfg c r)) = failed_reads [r]"
  by (cases r) (simp_all add: take_reading_def read_failures_def failed_reads_def)

lemma attempt_take_reading:
  "attempt (fst (take_reading cfg c r)) =
     attempt c + int (excursions (error cfg) (snd (take_reading cfg c r)))"
  by (cases r) (simp_all add: take_reading_def excursions_def)

lemma stop_take_reading: "ShouldStop b \<notin> set (snd (take_reading cfg c r))"
  by (cases r) (simp_all add: take_reading_def)

lemma poll_body_snd:
  "snd (poll_body cfg st n c p) =
     snd (take_reading cfg c (reading p)) @
     (case fst (poll_body cfg st n c p) of
        Continue c' \<Rightarrow> [ShouldStop False, Sleep (check_interval cfg)]
      | Break c' \<Rightarrow> []
      | Exit Returned \<Rightarrow> [ShouldStop True]
      | Exit (Raised e) \<Rightarrow>
          if e = ValueError \<and>
             \<not> (case max_comm_errors cfg of None \<Rightarrow> False
                | Some m \<Rightarrow> m < comm_errors (fst (take_reading cfg c (reading p))))
          then [ShouldStop False] else []
      | Exit Waiting \<Rightarrow> [])"
proof -
  obtain c' evs0 where t: "take_reading cfg c (reading p) = (c', evs0)"
    by (cases "take_reading cfg c (reading p)")
  show ?thesis
    unfolding poll_body_def t by (auto simp: sleep_def split: option.splits)
qed

lemma polling_induct_result [consumes 1, case_names Nil Continue Leave]:
  assumes "polling cfg st n c ps = (s, evs)"
    and "\<And>c. P c [] (Continue c) []"
    and "\<And>c p ps c' evs s evs'.
           poll_body cfg st n c p = (Continue c', evs) \<Longrightarrow>
           polling cfg st n c' ps = (s, evs') \<Longrightarrow> P c' ps s evs' \<Longrightarrow>
           P c (p # ps) s (evs @ evs')"
    and "\<And>c p ps s evs.
           poll_body cfg st n c p = (s, evs) \<Longrightarrow> (\<forall>c'. s \<noteq> Continue c') \<Longrightarrow>
           P c (p # ps) s evs"
  shows "P c ps s evs"
  using assms(1)
proof (induction ps arbitrary: c s evs)
  case Nil
  then show ?case using assms(2) by auto
next
  case (Cons p ps)
  obtain s0 evs0 where b: "poll_body cfg st n c p = (s0, evs0)"
    by (cases "poll_body cfg st n c p")
  show ?case
  proof (cases s0)
    case (Continue c')
    obtain s1 evs1 where r: "polling cfg st n c' ps = (s1, evs1)"
      by (cases "polling cfg st n c' ps")
    with Cons.prems b Continue have "s = s1" "evs = evs0 @ evs1" by simp_all
    with assms(3) [OF b [unfolded Continue] r Cons.IH [OF r]] show ?thesis by simp
  next
    case (Break c')
    with Cons.prems b have "s = s0" "evs = evs0" by simp_all
    with assms(4) [OF b] Break show ?thesis by simp
  next
    case (Exit e)
    with Cons.prems b have "s = s0" "evs = evs0" by simp_all
    with assms(4) [OF b] Exit show ?thesis by simp
  qed
qed

lemma poll_body_result:
  assumes "poll_body cfg st n c p = (s, evs)"
  shows "read_failures evs = failed_reads [reading p]"
    and "excursions (error cfg) evs =
           excursions (error cfg) (snd (take_reading cfg c (reading p)))"
    and "(ShouldStop True \<in> set evs) = (s = Exit Returned)"
    and "s = Exit Returned \<Longrightarrow> last evs = ShouldStop True"
    and "s = Continue c' \<or> s = Break c' \<Longrightarrow> c' = fst (take_reading cfg c (reading p))"
    and "s = Exit (Raised TimeoutError) \<Longrightarrow> 0 < timeout cfg"
    and "s = Exit (Raised ValueError) \<Longrightarrow> 0 \<le> check_interval cfg \<Longrightarrow>
           \<exists>m. max_comm_errors cfg = Some m \<and>
               m < comm_errors (fst (take_reading cfg c (reading p)))"
    and "s = Exit e \<Longrightarrow> e = Returned \<or> e = Raised TimeoutError \<or> e = Raised ValueError"
proof -
  from assms have s: "s = fst (poll_body cfg st n c p)"
    and evs: "evs = snd (poll_body cfg st n c p)"
    by simp_all
  note tail = evs [unfolded poll_body_snd, folded s]
  show "read_failures evs = failed_reads [reading p]"
    unfolding tail
    by (simp add: read_failures_append read_failures_take_reading)
       (simp add: read_failures_def split: status.splits ending.splits)
  show "excursions (error cfg) evs =
          excursions (error cfg) (snd (take_reading cfg c (reading p)))"
    unfolding tail
    by (simp add: excursions_append) (simp add: excursions_def split: status.splits ending.splits)
  show "(ShouldStop True \<in> set evs) = (s = Exit Returned)"
    unfolding tail
    by (auto simp: stop_take_reading split: status.splits ending.splits if_splits)
  show "s = Exit Returned \<Longrightarrow> last evs = ShouldStop True"
    unfolding tail by simp
  show "s = Continue c' \<or> s = Break c' \<Longrightarrow> c' = fst (take_reading cfg c (reading p))"
    unfolding s poll_body_fst by (auto simp: Let_def split: if_splits)
  show "s = Exit (Raised TimeoutError) \<Longrightarrow> 0 < timeout cfg"
    unfolding s poll_body_fst by (auto simp: Let_def split: if_splits)
  show "s = Exit (Raised ValueError) \<Longrightarrow> 0 \<le> check_interval cfg \<Longrightarrow>
           \<exists>m. max_comm_errors cfg = Some m \<and>
               m < comm_errors (fst (take_reading cfg c (reading p)))"
    unfolding s poll_body_fst by (auto simp: Let_def split: if_splits option.splits)
  show "s = Exit e \<Longrightarrow> e = Returned \<or> e = Raised TimeoutError \<or> e = Raised ValueError"
    unfolding s poll_body_fst by (auto simp: Let_def split: if_splits)
qed

lemma polling_counters:
  assumes "polling cfg st n c ps = (s, evs)" and "s = Continue c' \<or> s = Break c'"
  shows "comm_errors c' = comm_errors c + int (read_failures evs) \<and>
         attempt c' = attempt c + int (excursions (error cfg) evs)"
  using assms
proof (induction arbitrary: c' rule: polling_induct_result)
  case (Nil c)
  then show ?case by (simp add: read_failures_def excursions_def)
next
  case (Continue c p ps c1 evs s evs')
  from poll_body_result(5) [OF Continue(1), of c1]
  have c1: "c1 = fst (take_reading cfg c (reading p))" by simp
  from Continue(3) [OF Continue(4)] poll_body_result(1,2) [OF Continue(1)] show ?case
    by (simp add: c1 comm_errors_take_reading attempt_take_reading read_failures_append
          excursions_append)
next
  case (Leave c p ps s evs)
  from poll_body_result(5) [OF Leave(1) Leave(3)]
  have "c' = fst (take_reading cfg c (reading p))" .
  with poll_body_result(1,2) [OF Leave(1)] show ?case
    by (simp add: comm_errors_take_reading attempt_take_reading)
qed

lemma polling_comm_raise:
  assumes "polling cfg st n c ps = (s, evs)" and "s = Exit (Raised ValueError)"
    and "0 \<le> check_interval cfg"
  shows "\<exists>m. max_comm_errors cfg = Some m \<and> m < comm_errors c + int (read_failures evs)"
  using assms
proof (induction rule: polling_induct_result)
  case (Nil c)
  then show ?case by simp
next
  case (Continue c p ps c1 evs s evs')
  from poll_body_result(5) [OF Continue(1), of c1]
  have c1: "c1 = fst (take_reading cfg c (reading p))" by simp
  from Continue(3) [OF Continue(4,5)] poll_body_result(1) [OF Continue(1)] show ?case
    by (auto simp: c1 comm_errors_take_reading read_failures_append)
next
  case (Leave c p ps s evs)
  from poll_body_result(7) [OF Leave(1,3,4)] poll_body_result(1) [OF Leave(1)] show ?case
    by (simp add: comm_errors_take_reading)
qed

lemma polling_stop:
  assumes "polling cfg st n c ps = (s, evs)"
  shows "(ShouldStop True \<in> set evs) = (s = Exit Returned) \<and>
         (s = Exit Returned \<longrightarrow> last evs = ShouldStop True)"
  using assms
proof (induction rule: polling_induct_result)
  case (Nil c)
  then show ?case by simp
next
  case (Continue c p ps c1 evs s evs')
  from poll_body_result(3) [OF Continue(1)] have "ShouldStop True \<notin> set evs" by simp
  moreover have "last (evs @ evs') = last evs'" if "ShouldStop True \<in> set evs'"
    using that by (cases evs') auto
  ultimately show ?case using Continue(3) by auto
next
  case (Leave c p ps s evs)
  from poll_body_result(3,4) [OF Leave(1)] show ?case by simp
qed


lemma polling_continue_reads:
  assumes "polling cfg st n c ps = (s, evs)" and "s = Continue c'"
  shows "read_failures evs = failed_reads (map reading ps)"
  using assms
proof (induction arbitrary: c' rule: polling_induct_result)
  case (Nil c)
  then show ?case by (simp add: read_failures_def failed_reads_def)
next
  case (Continue c p ps c1 evs s evs')
  from Continue(3) [OF Continue(4)] poll_body_result(1) [OF Continue(1)] show ?case
    using failed_reads_Cons [of "reading p" "map reading ps"]
    by (simp add: read_failures_append)
next
  case (Leave c p ps s evs)
  then show ?case by simp
qed

lemma thermalize_stop:
  assumes "thermalize cfg t1 ks = (e, evs)" and "ShouldStop True \<in> set evs"
  shows "e = Returned \<and> last evs = ShouldStop True"
  using assms
proof (induction ks arbitrary: e evs)
  case Nil
  then show ?case by simp
next
  case (Cons k ks)
  obtain e' evs' where r: "thermalize cfg t1 ks = (e', evs')"
    by (cases "thermalize cfg t1 ks")
  from Cons.prems r Cons.IH [OF r] show ?case
    by (auto simp: sleep_def split: if_splits)
qed

lemma thermalize_trace:
  assumes "thermalize cfg t1 ks = (e, evs)"
  shows "read_failures evs = 0 \<and> excursions err evs = 0 \<and>
         (\<forall>x. e = Raised x \<longrightarrow> x = ValueError \<and> check_interval cfg < 0)"
  using assms
proof (induction ks arbitrary: e evs)
  case Nil
  then show ?case by (simp add: read_failures_def excursions_def)
next
  case (Cons k ks)
  obtain e' evs' where r: "thermalize cfg t1 ks = (e', evs')"
    by (cases "thermalize cfg t1 ks")
  from Cons.prems r Cons.IH [OF r] show ?case
    by (auto simp: sleep_def read_failures_def excursions_def split: if_splits)
qed

lemma thermalize_wait:
  assumes "0 \<le> check_interval cfg" and "\<forall>j\<in>set pre. tclock j < t1 \<and> \<not> tstop j"
    and "\<not> tclock k < t1"
  shows "thermalize cfg t1 (pre @ k # rest) =
           (Returned, concat (map (\<lambda>j. thermalize_round cfg) pre))"
  using assms(2)
proof (induction pre)
  case Nil
  then show ?case using assms(3) by simp
next
  case (Cons j pre)
  then show ?case using assms(1) by (simp add: sleep_def thermalize_round_def)
qed

lemma wait_for_temperature_unfold:
  assumes "check_interval cfg \<noteq> 0"
    and "polling cfg (t0 w) (number_of_intervals cfg) start_counters (polls w) = (s, evs)"
  shows "wait_for_temperature cfg w =
           (case s of
              Exit e \<Rightarrow> (e, evs)
            | Continue c \<Rightarrow> (Waiting, evs)
            | Break c \<Rightarrow>
                if attempt c = 0 then (Returned, evs)
                else (case thermalize cfg (t_stable w + thermalize_interval cfg) (ticks w) of
                        (e, evs') \<Rightarrow> (e, evs @ evs')))"
  using assms by (simp add: wait_for_temperature_def split: status.splits)

lemma not_stable_without_run:
  assumes "fst (polling cfg st n start_counters pre) = Continue c"
    and "\<not> has_run n (error cfg) (successful (map reading (pre @ [p])))"
  shows "\<not> n \<le> stable_intervals (fst (take_reading cfg c (reading p)))"
proof
  assume "n \<le> stable_intervals (fst (take_reading cfg c (reading p)))"
  then have "fst (polling cfg st n c [p]) = Break (fst (take_reading cfg c (reading p)))"
    by (simp add: polling_Cons_fst poll_body_fst Let_def del: polling.simps)
  with polling_append_fst [OF assms(1), of "[p]"]
  have "fst (polling cfg st n start_counters (pre @ [p])) =
          Break (fst (take_reading cfg c (reading p)))"
    by simp
  from break_has_run [OF this] assms(2) show False by simp
qed

lemma comm_errors_after:
  assumes "fst (polling cfg st n start_counters pre) = Continue c"
  shows "comm_errors (fst (take_reading cfg c (reading p))) =
           int (failed_reads (map reading (pre @ [p])))"
proof -
  obtain evs where r: "polling cfg st n start_counters pre = (Continue c, evs)"
    using assms by (cases "polling cfg st n start_counters pre") simp
  from polling_counters [OF r] polling_continue_reads [OF r]
  have "comm_errors c = int (failed_reads (map reading pre))"
    by (simp add: start_counters_def)
  then show ?thesis
    by (simp add: comm_errors_take_reading failed_reads_append)
qed

text \<open>
  C3, as the specification states it, with the sample count
  \<open>round(stability_interval / check_interval)\<close>, fails: with a stability interval of 3 s
  and a check interval of 2 s the driver asks for \<open>int(1.5) = 1\<close> sample where the
  specification asks for \<open>round(1.5) = 2\<close>.  The first sample is in band, the next two are
  not; the polling loop is left as stable after the first sample although no two
  consecutive samples are in band.
\<close>

theorem stability_detection_round_counterexample:
  "fst (polling
          \<lparr>error = 1 / 100, timeout = 0, check_interval = 2, stability_interval = 3,
             thermalize_interval = 300, max_comm_errors = None\<rparr>
          0
          (number_of_intervals
             \<lparr>error = 1 / 100, timeout = 0, check_interval = 2, stability_interval = 3,
                thermalize_interval = 300, max_comm_errors = None\<rparr>)
          start_counters
          [\<lparr>reading = Reading 0, clock = 0, stop = False\<rparr>,
           \<lparr>reading = Reading 1, clock = 2, stop = False\<rparr>,
           \<lparr>reading = Reading 1, clock = 4, stop = False\<rparr>]) =
     Break \<lparr>stable_intervals = 1, attempt = 0, comm_errors = 0\<rparr> \<and>
   \<not> has_run
       (required_samples
          \<lparr>error = 1 / 100, timeout = 0, check_interval = 2, stability_interval = 3,
             thermalize_interval = 300, max_comm_errors = None\<rparr>)
       (1 / 100)
       (successful (map reading
          [\<lparr>reading = Reading 0, clock = 0, stop = False\<rparr>,
           \<lparr>reading = Reading 1, clock = 2, stop = False\<rparr>,
           \<lparr>reading = Reading 1, clock = 4, stop = False\<rparr>]))"
  by (simp add: number_of_intervals_def int_of_float_def float_div_examples required_samples_def
        round_half_even_def start_counters_def poll_body_def take_reading_def in_band_def
        Let_def)

text \<open>
  C3, amended.  The required sample count is \<open>int(stability_interval / check_interval)\<close>:
  the floating-point quotient, truncated towards zero.  For a sequence of polls in which
  nothing else ends the wait (no cancellation, no timeout, no exhausted
  communication-error budget), the polling loop is left as stable if and only if the
  successfully read samples contain that many consecutive samples with
  \<open>|temp_error| < error\<close>; a failed read is no sample, so it neither resets nor extends a
  run.
\<close>

theorem stability_detection:
  assumes "0 < check_interval cfg" and "ps \<noteq> []"
    and "\<forall>p\<in>set ps. \<not> stop p"
    and "\<forall>p\<in>set ps. \<not> (0 < timeout cfg \<and> timeout cfg < clock p - st)"
    and "\<forall>m. max_comm_errors cfg = Some m \<longrightarrow> int (failed_reads (map reading ps)) \<le> m"
  shows "(\<exists>c. fst (polling cfg st (number_of_intervals cfg) start_counters ps) = Break c) \<longleftrightarrow>
         has_run (number_of_intervals cfg) (error cfg) (successful (map reading ps))"
proof
  assume "\<exists>c. fst (polling cfg st (number_of_intervals cfg) start_counters ps) = Break c"
  then show "has_run (number_of_intervals cfg) (error cfg) (successful (map reading ps))"
    using break_has_run by blast
next
  assume "has_run (number_of_intervals cfg) (error cfg) (successful (map reading ps))"
  with assms show "\<exists>c. fst (polling cfg st (number_of_intervals cfg) start_counters ps) = Break c"
    by (intro has_run_break) simp_all
qed

theorem stability_detection_witness:
  "has_run 2 (1 / 100) [0, 0] \<and>
   (\<exists>c. fst (polling
               \<lparr>error = 1 / 100, timeout = 3600, check_interval = 1 / 2,
                  stability_interval = 1, thermalize_interval = 300,
                  max_comm_errors = Some 1\<rparr>
               0
               (number_of_intervals
                  \<lparr>error = 1 / 100, timeout = 3600, check_interval = 1 / 2,
                     stability_interval = 1, thermalize_interval = 300,
                     max_comm_errors = Some 1\<rparr>)
               start_counters
               [\<lparr>reading = Reading 0, clock = 0, stop = False\<rparr>,
                \<lparr>reading = ReadError, clock = 1 / 2, stop = False\<rparr>,
                \<lparr>reading = Reading 0, clock = 1, stop = False\<rparr>]) = Break c)"
  using stability_detection
    [of "\<lparr>error = 1 / 100, timeout = 3600, check_interval = 1 / 2,
            stability_interval = 1, thermalize_interval = 300, max_comm_errors = Some 1\<rparr>"
        "[\<lparr>reading = Reading 0, clock = 0, stop = False\<rparr>,
          \<lparr>reading = ReadError, clock = 1 / 2, stop = False\<rparr>,
          \<lparr>reading = Reading 0, clock = 1, stop = False\<rparr>]" 0]
  by (simp add: number_of_intervals_def int_of_float_def float_div_examples in_band_def failed_reads_def)

lemma polling_at:
  assumes "fst (polling cfg st n start_counters pre) = Continue c"
  shows "fst (polling cfg st n start_counters (pre @ p # rest)) =
           (case fst (poll_body cfg st n c p) of
              Continue c' \<Rightarrow> fst (polling cfg st n c' rest)
            | Break c' \<Rightarrow> Break c'
            | Exit e \<Rightarrow> Exit e)"
  using polling_append_fst [OF assms, of "p # rest"]
  by (simp add: polling_Cons_fst del: polling.simps)

lemma wait_for_temperature_exit:
  assumes "check_interval cfg \<noteq> 0"
    and "fst (polling cfg (t0 w) (number_of_intervals cfg) start_counters (polls w)) = Exit e"
  shows "fst (wait_for_temperature cfg w) = e"
proof -
  obtain evs where
    "polling cfg (t0 w) (number_of_intervals cfg) start_counters (polls w) = (Exit e, evs)"
    using assms(2)
    by (cases "polling cfg (t0 w) (number_of_intervals cfg) start_counters (polls w)") simp
  from wait_for_temperature_unfold [OF assms(1) this] show ?thesis by simp
qed



lemma logged_errors_append: "logged_errors (a @ b) = logged_errors a @ logged_errors b"
  by (simp add: logged_errors_def)

lemma log_numbers_shift:
  "(a + 1) # map (\<lambda>k. a + 1 + int k) [1..<Suc n] = map (\<lambda>k. a + int k) [1..<Suc (Suc n)]"
proof -
  have "[1..<Suc (Suc n)] = 1 # map Suc [1..<Suc n]"
    by (simp add: map_Suc_upt upt_conv_Cons del: upt_Suc)
  then show ?thesis
    by (simp add: o_def add.assoc del: upt_Suc)
qed

lemma poll_body_logged:
  assumes "poll_body cfg st n c p = (s, evs)"
  shows "logged_errors evs = (if reading p = ReadError then [comm_errors c + 1] else [])"
proof -
  from assms have s: "s = fst (poll_body cfg st n c p)"
    and evs: "evs = snd (poll_body cfg st n c p)"
    by simp_all
  note tail = evs [unfolded poll_body_snd, folded s]
  have "logged_errors (snd (take_reading cfg c (reading p))) =
          (if reading p = ReadError then [comm_errors c + 1] else [])"
    by (cases "reading p") (simp_all add: take_reading_def logged_errors_def)
  then show ?thesis
    unfolding tail
    by (simp add: logged_errors_append)
       (simp add: logged_errors_def split: status.splits ending.splits)
qed

lemma polling_logged:
  assumes "polling cfg st n c ps = (s, evs)"
  shows "logged_errors evs = map (\<lambda>k. comm_errors c + int k) [1..<Suc (read_failures evs)]"
  using assms
proof (induction rule: polling_induct_result)
  case (Nil c)
  then show ?case by (simp add: logged_errors_def read_failures_def)
next
  case (Continue c p ps c1 evs s evs')
  from poll_body_result(5) [OF Continue(1), of c1]
  have c1: "c1 = fst (take_reading cfg c (reading p))" by simp
  show ?case
  proof (cases "reading p = ReadError")
    case True
    with poll_body_result(1) [OF Continue(1)] have rf: "read_failures evs = 1"
      by (simp add: failed_reads_def)
    from True have "comm_errors c1 = comm_errors c + 1"
      by (simp add: c1 take_reading_failed)
    with Continue(3) poll_body_logged [OF Continue(1)] True rf
      log_numbers_shift [of "comm_errors c" "read_failures evs'"]
    show ?thesis
      by (simp add: logged_errors_append read_failures_append del: upt_Suc)
  next
    case False
    with poll_body_result(1) [OF Continue(1)] have rf: "read_failures evs = 0"
      by (simp add: failed_reads_def)
    from False have "comm_errors c1 = comm_errors c"
      by (simp add: c1 comm_errors_take_reading failed_reads_def)
    with Continue(3) poll_body_logged [OF Continue(1)] False rf show ?thesis
      by (simp add: logged_errors_append read_failures_append del: upt_Suc)
  qed
next
  case (Leave c p ps s evs)
  from poll_body_logged [OF Leave(1)] poll_body_result(1) [OF Leave(1)] show ?case
    by (simp add: failed_reads_def)
qed

lemma thermalize_logged:
  assumes "thermalize cfg t1 ks = (e, evs)"
  shows "logged_errors evs = []"
  using assms
proof (induction ks arbitrary: e evs)
  case Nil
  then show ?case by (simp add: logged_errors_def)
next
  case (Cons k ks)
  obtain e' evs' where r: "thermalize cfg t1 ks = (e', evs')"
    by (cases "thermalize cfg t1 ks")
  from Cons.prems r Cons.IH [OF r] show ?case
    by (auto simp: sleep_def logged_errors_def split: if_splits)
qed

lemma wait_for_temperature_trace:
  assumes "check_interval cfg \<noteq> 0"
    and "polling cfg (t0 w) (number_of_intervals cfg) start_counters (polls w) = (s, evs)"
  shows "read_failures (snd (wait_for_temperature cfg w)) = read_failures evs \<and>
         logged_errors (snd (wait_for_temperature cfg w)) = logged_errors evs \<and>
         excursions err (snd (wait_for_temperature cfg w)) = excursions err evs"
proof -
  obtain e' evs' where
    t: "thermalize cfg (t_stable w + thermalize_interval cfg) (ticks w) = (e', evs')"
    by (cases "thermalize cfg (t_stable w + thermalize_interval cfg) (ticks w)")
  from thermalize_trace [OF t, of err] thermalize_logged [OF t] show ?thesis
    by (simp add: wait_for_temperature_unfold [OF assms] t read_failures_append
          logged_errors_append excursions_append split: status.splits)
qed

text \<open>
  C5, as the specification states it, with the communication error raised exactly when
  the failed reads exceed \<open>max_comm_errors\<close>, fails, because the polling loop tests
  stability and the timeout before the error budget.  With a budget of 0 and a first read
  that fails: if the clock of that round is past the timeout, the call raises TimeoutError;
  and if the required sample count is 0 (a stability interval of 0), the loop is left as
  stable in that round and the call returns normally.  In both calls one read has failed,
  which is more than the budget, and no communication error is raised.
\<close>

theorem comm_error_budget_counterexample:
  "wait_for_temperature
     \<lparr>error = 1 / 100, timeout = 1, check_interval = 1 / 2, stability_interval = 1,
        thermalize_interval = 300, max_comm_errors = Some 0\<rparr>
     \<lparr>t0 = 0, polls = [\<lparr>reading = ReadError, clock = 2, stop = False\<rparr>],
        t_stable = 0, ticks = []\<rparr> =
   (Raised TimeoutError, [GetTemperatureError ReadError, LogError 1]) \<and>
   wait_for_temperature
     \<lparr>error = 1 / 100, timeout = 0, check_interval = 1 / 2, stability_interval = 0,
        thermalize_interval = 300, max_comm_errors = Some 0\<rparr>
     \<lparr>t0 = 0, polls = [\<lparr>reading = ReadError, clock = 2, stop = False\<rparr>],
        t_stable = 0, ticks = []\<rparr> =
   (Returned, [GetTemperatureError ReadError, LogError 1]) \<and>
   (0 :: int) < int (read_failures [GetTemperatureError ReadError, LogError 1])"
  by (simp add: wait_for_temperature_def number_of_intervals_def int_of_float_def
        float_div_examples start_counters_def poll_body_def take_reading_def
        read_failures_def)

text \<open>
  C5, amended.  With \<open>max_comm_errors\<close> a number \<open>m\<close> (and a check interval above 0): a
  call that ends with the communication error (ValueError) has made more than \<open>m\<close> failed
  reads; and if the wait is still polling when a round brings the number of failed reads
  above \<open>m\<close>, the call raises the communication error in that round unless that round
  reaches stability or the timeout, which are tested first.  Failed reads at or below the
  budget do not abort the call.  With \<open>max_comm_errors = None\<close> the call never ends with
  that error.  Every failed read is logged with its running number.
\<close>

theorem comm_error_budget:
  "(0 < check_interval cfg \<and> fst (wait_for_temperature cfg w) = Raised ValueError
      \<longrightarrow> (\<exists>m. max_comm_errors cfg = Some m \<and>
               m < int (read_failures (snd (wait_for_temperature cfg w))))) \<and>
   (0 < check_interval cfg \<and> max_comm_errors cfg = Some m \<and> polls w = pre @ p # rest \<and>
    fst (polling cfg (t0 w) (number_of_intervals cfg) start_counters pre) = Continue c \<and>
    \<not> has_run (number_of_intervals cfg) (error cfg) (successful (map reading (pre @ [p]))) \<and>
    \<not> (0 < timeout cfg \<and> timeout cfg < clock p - t0 w) \<and>
    m < int (failed_reads (map reading (pre @ [p])))
      \<longrightarrow> fst (wait_for_temperature cfg w) = Raised ValueError) \<and>
   (0 < check_interval cfg \<and> max_comm_errors cfg = None
      \<longrightarrow> fst (wait_for_temperature cfg w) \<noteq> Raised ValueError) \<and>
   logged_errors (snd (wait_for_temperature cfg w)) =
     map int [1..<Suc (read_failures (snd (wait_for_temperature cfg w)))]"
proof -
  obtain s evs where
    r: "polling cfg (t0 w) (number_of_intervals cfg) start_counters (polls w) = (s, evs)"
    by (cases "polling cfg (t0 w) (number_of_intervals cfg) start_counters (polls w)")
  obtain e' evs' where
    t: "thermalize cfg (t_stable w + thermalize_interval cfg) (ticks w) = (e', evs')"
    by (cases "thermalize cfg (t_stable w + thermalize_interval cfg) (ticks w)")
  have only_if: "\<exists>m. max_comm_errors cfg = Some m \<and>
                     m < int (read_failures (snd (wait_for_temperature cfg w)))"
    if ci: "0 < check_interval cfg" and v: "fst (wait_for_temperature cfg w) = Raised ValueError"
  proof -
    from ci have nz: "check_interval cfg \<noteq> 0" by simp
    from thermalize_trace [OF t] ci have "e' \<noteq> Raised ValueError" by auto
    with v have "s = Exit (Raised ValueError)"
      by (auto simp: wait_for_temperature_unfold [OF nz r] t split: status.splits if_splits)
    from polling_comm_raise [OF r this] ci wait_for_temperature_trace [OF nz r]
    show ?thesis by (simp add: start_counters_def)
  qed
  have "if": "fst (wait_for_temperature cfg w) = Raised ValueError"
    if a: "0 < check_interval cfg \<and> max_comm_errors cfg = Some m \<and> polls w = pre @ p # rest \<and>
      fst (polling cfg (t0 w) (number_of_intervals cfg) start_counters pre) = Continue c \<and>
      \<not> has_run (number_of_intervals cfg) (error cfg) (successful (map reading (pre @ [p]))) \<and>
      \<not> (0 < timeout cfg \<and> timeout cfg < clock p - t0 w) \<and>
      m < int (failed_reads (map reading (pre @ [p])))"
  proof -
    from a have pre: "fst (polling cfg (t0 w) (number_of_intervals cfg) start_counters pre) =
                        Continue c"
      by simp
    from a not_stable_without_run [OF pre, of p]
    have "\<not> number_of_intervals cfg \<le> stable_intervals (fst (take_reading cfg c (reading p)))"
      by simp
    with a comm_errors_after [OF pre, of p]
    have "fst (poll_body cfg (t0 w) (number_of_intervals cfg) c p) = Exit (Raised ValueError)"
      by (simp add: poll_body_fst Let_def)
    with polling_at [OF pre, of p rest] a
    have "fst (polling cfg (t0 w) (number_of_intervals cfg) start_counters (polls w)) =
            Exit (Raised ValueError)"
      by simp
    with a show ?thesis
      by (simp add: wait_for_temperature_exit)
  qed
  have logged: "logged_errors (snd (wait_for_temperature cfg w)) =
                  map int [1..<Suc (read_failures (snd (wait_for_temperature cfg w)))]"
  proof (cases "check_interval cfg = 0")
    case True
    then show ?thesis
      by (simp add: wait_for_temperature_def logged_errors_def read_failures_def)
  next
    case False
    from polling_logged [OF r] wait_for_temperature_trace [OF False r] show ?thesis
      by (simp add: start_counters_def del: upt_Suc)
  qed
  from only_if "if" logged show ?thesis by auto
qed

theorem comm_error_budget_witness:
  "fst (wait_for_temperature
          \<lparr>error = 1 / 100, timeout = 3600, check_interval = 1 / 2, stability_interval = 1,
             thermalize_interval = 300, max_comm_errors = Some 1\<rparr>
          \<lparr>t0 = 0,
             polls = [\<lparr>reading = ReadError, clock = 1 / 2, stop = False\<rparr>,
                      \<lparr>reading = ReadError, clock = 1, stop = False\<rparr>],
             t_stable = 0, ticks = []\<rparr>) = Raised ValueError \<and>
   (1 :: int) < int (read_failures (snd (wait_for_temperature
          \<lparr>error = 1 / 100, timeout = 3600, check_interval = 1 / 2, stability_interval = 1,
             thermalize_interval = 300, max_comm_errors = Some 1\<rparr>
          \<lparr>t0 = 0,
             polls = [\<lparr>reading = ReadError, clock = 1 / 2, stop = False\<rparr>,
                      \<lparr>reading = ReadError, clock = 1, stop = False\<rparr>],
             t_stable = 0, ticks = []\<rparr>))) \<and>
   fst (wait_for_temperature
          \<lparr>error = 1 / 100, timeout = 3600, check_interval = 1 / 2, stability_interval = 1,
             thermalize_interval = 300, max_comm_errors = None\<rparr>
          \<lparr>t0 = 0,
             polls = [\<lparr>reading = ReadError, clock = 1 / 2, stop = False\<rparr>,
                      \<lparr>reading = ReadError, clock = 1, stop = False\<rparr>],
             t_stable = 0, ticks = []\<rparr>) \<noteq> Raised ValueError"
  using comm_error_budget
    [of "\<lparr>error = 1 / 100, timeout = 3600, check_interval = 1 / 2, stability_interval = 1,
            thermalize_interval = 300, max_comm_errors = Some 1\<rparr>"
        "\<lparr>t0 = 0,
            polls = [\<lparr>reading = ReadError, clock = 1 / 2, stop = False\<rparr>,
                     \<lparr>reading = ReadError, clock = 1, stop = False\<rparr>],
            t_stable = 0, ticks = []\<rparr>"
        1
        "[\<lparr>reading = ReadError, clock = 1 / 2, stop = False\<rparr>]"
        "\<lparr>reading = ReadError, clock = 1, stop = False\<rparr>" "[]"
        "\<lparr>stable_intervals = 0, attempt = 0, comm_errors = 1\<rparr>"]
    comm_error_budget
    [of "\<lparr>error = 1 / 100, timeout = 3600, check_interval = 1 / 2, stability_interval = 1,
            thermalize_interval = 300, max_comm_errors = None\<rparr>"
        "\<lparr>t0 = 0,
            polls = [\<lparr>reading = ReadError, clock = 1 / 2, stop = False\<rparr>,
                     \<lparr>reading = ReadError, clock = 1, stop = False\<rparr>],
            t_stable = 0, ticks = []\<rparr>"]
  by (simp add: number_of_intervals_def int_of_float_def float_div_examples in_band_def start_counters_def
        poll_body_def take_reading_def sleep_def failed_reads_def)

text \<open>
  C6.  When the polling loop is left as stable, the attempt count is the number of samples
  read outside the band.  If it is 0 the call returns at once: the events of the call are
  those of the polling loop, with no sleep after stability.  Otherwise the call goes on
  waiting in rounds of one sleep of \<open>check_interval\<close> and one poll of \<open>should_stop\<close>, and,
  unless cancelled, returns at the first clock reading that is not before the moment of
  stability plus \<open>thermalize_interval\<close>.
\<close>

theorem thermalization_wait:
  assumes "0 < check_interval cfg"
    and "polling cfg (t0 w) (number_of_intervals cfg) start_counters (polls w) = (Break c, evs)"
  shows "attempt c = int (excursions (error cfg) evs) \<and>
         (attempt c = 0 \<longrightarrow> wait_for_temperature cfg w = (Returned, evs)) \<and>
         (attempt c \<noteq> 0 \<and> ticks w = pre @ k # rest \<and>
          (\<forall>j\<in>set pre. tclock j < t_stable w + thermalize_interval cfg \<and> \<not> tstop j) \<and>
          \<not> tclock k < t_stable w + thermalize_interval cfg
            \<longrightarrow> wait_for_temperature cfg w =
                  (Returned, evs @ concat (map (\<lambda>j. thermalize_round cfg) pre)))"
proof -
  from assms(1) have nz: "check_interval cfg \<noteq> 0" and nn: "0 \<le> check_interval cfg"
    by simp_all
  from polling_counters [OF assms(2)]
  have 1: "attempt c = int (excursions (error cfg) evs)"
    by (simp add: start_counters_def)
  have 2: "wait_for_temperature cfg w = (Returned, evs)" if "attempt c = 0"
    using that by (simp add: wait_for_temperature_unfold [OF nz assms(2)])
  have 3: "wait_for_temperature cfg w =
             (Returned, evs @ concat (map (\<lambda>j. thermalize_round cfg) pre))"
    if a: "attempt c \<noteq> 0 \<and> ticks w = pre @ k # rest \<and>
          (\<forall>j\<in>set pre. tclock j < t_stable w + thermalize_interval cfg \<and> \<not> tstop j) \<and>
          \<not> tclock k < t_stable w + thermalize_interval cfg"
  proof -
    from a have "thermalize cfg (t_stable w + thermalize_interval cfg) (ticks w) =
                   (Returned, concat (map (\<lambda>j. thermalize_round cfg) pre))"
      using thermalize_wait [OF nn, of pre "t_stable w + thermalize_interval cfg" k rest]
      by simp
    with a show ?thesis
      by (simp add: wait_for_temperature_unfold [OF nz assms(2)])
  qed
  from 1 2 3 show ?thesis by blast
qed

theorem thermalization_wait_witness:
  "wait_for_temperature
     \<lparr>error = 1 / 100, timeout = 3600, check_interval = 1 / 2, stability_interval = 1 / 2,
        thermalize_interval = 1, max_comm_errors = None\<rparr>
     \<lparr>t0 = 0,
        polls = [\<lparr>reading = Reading 1, clock = 0, stop = False\<rparr>,
                 \<lparr>reading = Reading 0, clock = 1 / 2, stop = False\<rparr>],
        t_stable = 1,
        ticks = [\<lparr>tclock = 1, tstop = False\<rparr>, \<lparr>tclock = 3 / 2, tstop = False\<rparr>,
                 \<lparr>tclock = 2, tstop = False\<rparr>]\<rparr> =
   (Returned,
    [GetTemperatureError (Reading 1), ShouldStop False, Sleep (1 / 2),
     GetTemperatureError (Reading 0),
     Sleep (1 / 2), ShouldStop False, Sleep (1 / 2), ShouldStop False]) \<and>
   wait_for_temperature
     \<lparr>error = 1 / 100, timeout = 3600, check_interval = 1 / 2, stability_interval = 1 / 2,
        thermalize_interval = 1, max_comm_errors = None\<rparr>
     \<lparr>t0 = 0,
        polls = [\<lparr>reading = Reading 0, clock = 0, stop = False\<rparr>],
        t_stable = 1,
        ticks = [\<lparr>tclock = 1, tstop = False\<rparr>]\<rparr> =
   (Returned, [GetTemperatureError (Reading 0)])"
proof -
  let ?cfg = "\<lparr>error = 1 / 100, timeout = 3600, check_interval = 1 / 2,
                 stability_interval = 1 / 2, thermalize_interval = 1,
                 max_comm_errors = None\<rparr>"
  let ?w1 = "\<lparr>t0 = 0,
        polls = [\<lparr>reading = Reading 1, clock = 0, stop = False\<rparr>,
                 \<lparr>reading = Reading 0, clock = 1 / 2, stop = False\<rparr>],
        t_stable = 1,
        ticks = [\<lparr>tclock = 1, tstop = False\<rparr>, \<lparr>tclock = 3 / 2, tstop = False\<rparr>,
                 \<lparr>tclock = 2, tstop = False\<rparr>]\<rparr>"
  let ?w2 = "\<lparr>t0 = 0,
        polls = [\<lparr>reading = Reading 0, clock = 0, stop = False\<rparr>],
        t_stable = 1,
        ticks = [\<lparr>tclock = 1, tstop = False\<rparr>]\<rparr>"
  have ci: "0 < check_interval ?cfg" by simp
  have p1: "polling ?cfg (t0 ?w1) (number_of_intervals ?cfg) start_counters (polls ?w1) =
              (Break \<lparr>stable_intervals = 1, attempt = 1, comm_errors = 0\<rparr>,
               [GetTemperatureError (Reading 1), ShouldStop False, Sleep (1 / 2),
                GetTemperatureError (Reading 0)])"
    by (simp add: number_of_intervals_def int_of_float_def float_div_examples start_counters_def
          poll_body_def take_reading_def sleep_def)
  have p2: "polling ?cfg (t0 ?w2) (number_of_intervals ?cfg) start_counters (polls ?w2) =
              (Break \<lparr>stable_intervals = 1, attempt = 0, comm_errors = 0\<rparr>,
               [GetTemperatureError (Reading 0)])"
    by (simp add: number_of_intervals_def int_of_float_def float_div_examples start_counters_def
          poll_body_def take_reading_def sleep_def)
  from thermalization_wait [OF ci p1,
      of "[\<lparr>tclock = 1, tstop = False\<rparr>, \<lparr>tclock = 3 / 2, tstop = False\<rparr>]"
         "\<lparr>tclock = 2, tstop = False\<rparr>" "[]"]
    thermalization_wait [OF ci p2]
  show ?thesis
    by (simp add: thermalize_round_def)
qed

text \<open>
  C7.  Whenever \<open>should_stop\<close> is polled and answers true, in the polling loop or during
  the thermalization wait, the call returns normally, and that poll is the last thing the
  call does: no exception, whatever the timeout and the other parameters are.
\<close>

theorem should_stop_returns:
  assumes "wait_for_temperature cfg w = (e, evs)" and "ShouldStop True \<in> set evs"
  shows "e = Returned \<and> last evs = ShouldStop True"
proof (cases "check_interval cfg = 0")
  case True
  with assms show ?thesis by (simp add: wait_for_temperature_def)
next
  case False
  obtain s evs0 where
    r: "polling cfg (t0 w) (number_of_intervals cfg) start_counters (polls w) = (s, evs0)"
    by (cases "polling cfg (t0 w) (number_of_intervals cfg) start_counters (polls w)")
  obtain e' evs' where
    t: "thermalize cfg (t_stable w + thermalize_interval cfg) (ticks w) = (e', evs')"
    by (cases "thermalize cfg (t_stable w + thermalize_interval cfg) (ticks w)")
  note u = assms(1) [unfolded wait_for_temperature_unfold [OF False r]]
  note ps = polling_stop [OF r]
  show ?thesis
  proof (cases s)
    case (Continue c)
    with u ps assms(2) show ?thesis by simp
  next
    case (Exit x)
    with u ps assms(2) show ?thesis by auto
  next
    case (Break c)
    show ?thesis
    proof (cases "attempt c = 0")
      case True
      with Break u ps assms(2) show ?thesis by simp
    next
      case False
      with Break u t have e: "e = e'" and evs: "evs = evs0 @ evs'" by simp_all
      from Break ps have "ShouldStop True \<notin> set evs0" by simp
      with assms(2) evs have in': "ShouldStop True \<in> set evs'" by simp
      from thermalize_stop [OF t in'] have "e' = Returned" "last evs' = ShouldStop True"
        by simp_all
      moreover from in' have "evs' \<noteq> []" by auto
      ultimately show ?thesis by (simp add: e evs)
    qed
  qed
qed

theorem should_stop_returns_witness:
  "wait_for_temperature
     \<lparr>error = 1 / 100, timeout = 3600, check_interval = 1 / 2, stability_interval = 10,
        thermalize_interval = 300, max_comm_errors = None\<rparr>
     \<lparr>t0 = 0,
        polls = [\<lparr>reading = Reading 1, clock = 0, stop = False\<rparr>,
                 \<lparr>reading = Reading 1, clock = 1 / 2, stop = True\<rparr>],
        t_stable = 0, ticks = []\<rparr> =
   (Returned,
    [GetTemperatureError (Reading 1), ShouldStop False, Sleep (1 / 2),
     GetTemperatureError (Reading 1), ShouldStop True]) \<and>
   Returned = Returned \<and>
   last [GetTemperatureError (Reading 1), ShouldStop False, Sleep (1 / 2),
         GetTemperatureError (Reading 1), ShouldStop True] = ShouldStop True"
proof -
  let ?cfg = "\<lparr>error = 1 / 100, timeout = 3600, check_interval = 1 / 2,
                 stability_interval = 10, thermalize_interval = 300,
                 max_comm_errors = None\<rparr>"
  let ?w = "\<lparr>t0 = 0,
        polls = [\<lparr>reading = Reading 1, clock = 0, stop = False\<rparr>,
                 \<lparr>reading = Reading 1, clock = 1 / 2, stop = True\<rparr>],
        t_stable = 0, ticks = []\<rparr>"
  have r: "wait_for_temperature ?cfg ?w =
             (Returned,
              [GetTemperatureError (Reading 1), ShouldStop False, Sleep (1 / 2),
               GetTemperatureError (Reading 1), ShouldStop True])"
    by (simp add: wait_for_temperature_def number_of_intervals_def int_of_float_def float_div_examples
          start_counters_def poll_body_def take_reading_def sleep_def)
  have m: "ShouldStop True \<in> set [GetTemperatureError (Reading 1), ShouldStop False,
             Sleep (1 / 2), GetTemperatureError (Reading 1), ShouldStop True]"
    by simp
  from r should_stop_returns [OF r m] show ?thesis by blast
qed

section \<open>Properties of the reply parsing\<close>

lemma example_number: "py_float ''1234.5'' = Inr (Finite (12345 / 10))"
  by (simp add: py_float_def strip_def is_space_def absfloatvalue_def floatnumber_def
        number_def digitpart_def is_digit_def digit_value_def digit_count_def Let_def)

lemma digits_from_digits:
  "\<forall>c\<in>set ds. is_digit c \<Longrightarrow>
   digits_from a ds = Some (foldl (\<lambda>a c. 10 * a + digit_value c) a ds)"
  by (induction a ds rule: digits_from.induct) simp_all

lemma digitpart_digits:
  assumes "ds \<noteq> []" and "\<forall>c\<in>set ds. is_digit c"
  shows "digitpart ds = Some (decimal_value ds)"
proof -
  from assms(1) obtain c cs where ds: "ds = c # cs" by (cases ds) auto
  with assms(2) show ?thesis
    by (simp add: digitpart_def decimal_value_def digits_from_digits)
qed

lemma digit_count_digits: "\<forall>c\<in>set ds. is_digit c \<Longrightarrow> digit_count ds = length ds"
  by (simp add: digit_count_def)

lemma digit_is_plain:
  assumes "is_digit c"
  shows "\<not> is_space c" and "c \<noteq> CHR ''.''" and "c \<noteq> CHR ''e''" and "c \<noteq> CHR ''E''"
    and "c \<noteq> CHR ''-''" and "c \<noteq> CHR ''+''"
    and "c \<noteq> CHR ''i''" and "(of_char c :: nat) + 32 \<noteq> of_char (CHR ''i'')"
    and "c \<noteq> CHR ''n''" and "(of_char c :: nat) + 32 \<noteq> of_char (CHR ''n'')"
  using assms by (auto simp: is_digit_def is_space_def)

lemma strip_plain:
  assumes "s \<noteq> []" and "\<not> is_space (hd s)" and "\<not> is_space (last s)"
  shows "strip s = s"
proof -
  from assms(1,2) have 1: "dropWhile is_space s = s"
    by (cases s) simp_all
  from assms(1,3) have "dropWhile is_space (rev s) = rev s"
    by (cases "rev s") (simp_all add: last_rev [symmetric])
  with 1 show ?thesis by (simp add: strip_def)
qed

lemma number_decimal:
  assumes "ip \<noteq> []" and "\<forall>c\<in>set ip. is_digit c"
    and "fp \<noteq> []" and "\<forall>c\<in>set fp. is_digit c"
  shows "number (ip @ CHR ''.'' # fp) =
           Some (real (decimal_value ip) + real (decimal_value fp) / 10 ^ length fp)"
proof -
  from assms(2) have ip: "\<forall>c\<in>set ip. c \<noteq> CHR ''.''"
    using digit_is_plain(2) by blast
  then have t: "takeWhile (\<lambda>c. c \<noteq> CHR ''.'') (ip @ CHR ''.'' # fp) = ip"
    by (simp add: takeWhile_append2 [of ip] del: takeWhile_append2)
  from ip have d: "dropWhile (\<lambda>c. c \<noteq> CHR ''.'') (ip @ CHR ''.'' # fp) = CHR ''.'' # fp"
    by (simp add: dropWhile_append2 [of ip] del: dropWhile_append2)
  show ?thesis
    unfolding number_def t d
    by (simp add: assms digitpart_digits digit_count_digits)
qed

lemma floatnumber_decimal:
  assumes "ip \<noteq> []" and "\<forall>c\<in>set ip. is_digit c"
    and "fp \<noteq> []" and "\<forall>c\<in>set fp. is_digit c"
  shows "floatnumber (ip @ CHR ''.'' # fp) =
           Some (real (decimal_value ip) + real (decimal_value fp) / 10 ^ length fp)"
proof -
  let ?s = "ip @ CHR ''.'' # fp"
  from assms(2,4) have "\<forall>c\<in>set ?s. \<not> (c = CHR ''e'' \<or> c = CHR ''E'')"
    using digit_is_plain(3,4) by auto
  then have tk: "takeWhile (\<lambda>c. \<not> (c = CHR ''e'' \<or> c = CHR ''E'')) ?s = ?s"
    and dr: "dropWhile (\<lambda>c. \<not> (c = CHR ''e'' \<or> c = CHR ''E'')) ?s = []"
    by simp_all
  show ?thesis
    unfolding floatnumber_def Let_def tk dr
    by (simp add: number_decimal [OF assms])
qed

lemma py_float_decimal:
  assumes "ip \<noteq> []" and "\<forall>c\<in>set ip. is_digit c"
    and "fp \<noteq> []" and "\<forall>c\<in>set fp. is_digit c"
  shows "py_float (ip @ CHR ''.'' # fp) =
           Inr (Finite (real (decimal_value ip) + real (decimal_value fp) / 10 ^ length fp))"
proof -
  let ?s = "ip @ CHR ''.'' # fp"
  from assms(1) obtain c cs where ip: "ip = c # cs" by (cases ip) auto
  with assms(2) have c: "is_digit c" by simp
  from assms(3,4) have l: "is_digit (last fp)" by simp
  have s: "strip ?s = ?s"
    using digit_is_plain(1) [OF c] digit_is_plain(1) [OF l] assms(3)
    by (intro strip_plain) (simp_all add: ip)
  have a: "absfloatvalue ?s =
             Some (Finite (real (decimal_value ip) + real (decimal_value fp) / 10 ^ length fp))"
    using digit_is_plain(7-10) [OF c]
    by (simp add: absfloatvalue_def floatnumber_decimal [OF assms])
       (simp add: ip)
  show ?thesis
    unfolding py_float_def s Let_def
    using digit_is_plain(5,6) [OF c] a by (simp add: ip)
qed

text \<open>
  C8, as the specification states it, with the reply \<open>R1234.5\<close> decoding to 234.5, fails:
  the getter of \<open>temperature_error\<close> drops one character, the status letter, and the
  reply decodes to 1234.5.
\<close>

theorem temperature_error_example_counterexample:
  "temperature_error ''R1234.5'' = Inr (Finite (12345 / 10)) \<and>
   temperature_error ''R1234.5'' \<noteq> Inr (Finite (2345 / 10))"
  by (simp add: temperature_error_def example_number)

text \<open>
  C8, amended.  The getter of a numeric measurement property such as
  \<open>temperature_error\<close> strips the first character of the reply, the status letter, and
  parses the remainder.  A reply made of any one character followed by a numeral decodes
  to the value of the numeral; for a numeral written as digits, a point and digits that
  value is the integer part plus the fraction, so that \<open>R1234.5\<close> decodes to 1234.5.
\<close>

theorem temperature_error_strips_status_letter:
  "(py_float digits = Inr x \<longrightarrow> temperature_error (letter # digits) = Inr x) \<and>
   (ip \<noteq> [] \<and> (\<forall>c\<in>set ip. is_digit c) \<and> fp \<noteq> [] \<and> (\<forall>c\<in>set fp. is_digit c) \<longrightarrow>
      temperature_error (letter # ip @ CHR ''.'' # fp) =
        Inr (Finite (real (decimal_value ip) + real (decimal_value fp) / 10 ^ length fp)))"
  by (simp add: temperature_error_def py_float_decimal)

theorem temperature_error_strips_status_letter_witness:
  "py_float ''1234.5'' = Inr (Finite (12345 / 10)) \<and>
   temperature_error (CHR ''R'' # ''1234.5'') = Inr (Finite (12345 / 10)) \<and>
   temperature_error (CHR ''R'' # ''1234'' @ CHR ''.'' # ''5'') =
     Inr (Finite (real (decimal_value ''1234'') + real (decimal_value ''5'') / 10 ^ length ''5''))"
  using example_number
    temperature_error_strips_status_letter
      [of "''1234.5''" "Finite (12345 / 10)" "CHR ''R''" "''1234''" "''5''"]
  by (simp add: is_digit_def decimal_value_def digit_value_def)


end
